theory Spec2Isabelle
  imports Complex_Main "HOL-Library.Multiset"
begin

section \<open>Python values and errors\<close>

text \<open>
  The program (\<^verbatim>\<open>prepare.py\<close>) works on data loaded with \<^verbatim>\<open>json.load\<close>: the values
  below are the Python values such data is made of. A \<^verbatim>\<open>dict\<close> is an association
  list in insertion order (the order Python iterates it in); a well-formed one has
  distinct keys (\<open>wf_dict\<close>). A Python float is modelled by the real number it denotes;
  as data and as arguments, the special values \<^verbatim>\<open>inf\<close> and \<^verbatim>\<open>nan\<close> are outside the
  model.
\<close>

datatype json =
    JNull
  | JBool bool
  | JInt int
  | JFloat real
  | JStr string
  | JList "json list"
  | JDict "(string \<times> json) list"

text \<open>
  Exceptions, with the message they are raised with (a \<^verbatim>\<open>KeyError\<close> carries the missing
  key). The messages of the interpreter's own errors are abbreviated.
\<close>

datatype pyerr =
    TypeError string
  | ValueError string
  | KeyError json
  | IndexError string
  | OverflowError string

fun wf_dict :: "json \<Rightarrow> bool" where
  "wf_dict (JDict kvs) = distinct (map fst kvs)"
| "wf_dict _ = True"

text \<open>\<^verbatim>\<open>isinstance(data, (list, dict))\<close>\<close>

fun is_list_or_dict :: "json \<Rightarrow> bool" where
  "is_list_or_dict (JList xs) = True"
| "is_list_or_dict (JDict kvs) = True"
| "is_list_or_dict _ = False"

text \<open>\<^verbatim>\<open>len(x)\<close>: defined on strings, lists and dicts, a \<^verbatim>\<open>TypeError\<close> otherwise.\<close>

fun py_len :: "json \<Rightarrow> pyerr + nat" where
  "py_len (JList xs) = Inr (length xs)"
| "py_len (JDict kvs) = Inr (length kvs)"
| "py_len (JStr s) = Inr (length s)"
| "py_len _ = Inl (TypeError ''object has no len()'')"

text \<open>The keys of a dict, as a set.\<close>

fun keys :: "json \<Rightarrow> string set" where
  "keys (JDict kvs) = fst ` set kvs"
| "keys _ = {}"

text \<open>
  The result of a float multiplication: a finite float, or an infinity (of either sign)
  when the product is too large for a float.
\<close>

datatype pyfloat = Finite real | Infinity

text \<open>
  \<^verbatim>\<open>int(x)\<close> of a float truncates towards zero; of an infinity it raises
  \<^verbatim>\<open>OverflowError\<close>.
\<close>

definition trunc :: "real \<Rightarrow> int" where
  "trunc x = (if 0 \<le> x then \<lfloor>x\<rfloor> else \<lceil>x\<rceil>)"

definition overflow_error :: pyerr where
  "overflow_error = OverflowError ''cannot convert float infinity to integer''"

fun py_int :: "pyfloat \<Rightarrow> pyerr + int" where
  "py_int (Finite x) = Inr (trunc x)"
| "py_int Infinity = Inl overflow_error"

text \<open>
  \<^verbatim>\<open>d[k] = v\<close> on a dict: an existing key keeps its place and gets the new value, a new
  key goes last. \<^verbatim>\<open>dict(pairs)\<close> stores the pairs one after the other.
\<close>

fun dict_setitem :: "(string \<times> json) list \<Rightarrow> string \<Rightarrow> json \<Rightarrow> (string \<times> json) list" where
  "dict_setitem [] k v = [(k, v)]"
| "dict_setitem ((k', v') # d) k v =
     (if k' = k then (k, v) # d else (k', v') # dict_setitem d k v)"

definition py_dict :: "(string \<times> json) list \<Rightarrow> (string \<times> json) list" where
  "py_dict pairs = foldl (\<lambda>d (k, v). dict_setitem d k v) [] pairs"

section \<open>The standard library the splitter calls\<close>

text \<open>
  \<^verbatim>\<open>split_dataset\<close> calls \<^verbatim>\<open>random.seed\<close>, \<^verbatim>\<open>random.sample\<close>, builds lists from
  sets of integers and computes with floats. These belong to the Python interpreter, not
  to the repository, so
  they are parameters of the model: \<open>'g\<close> is the state of the process-wide generator.
  \<^item> \<open>seed a\<close> is the state \<^verbatim>\<open>random.seed(a)\<close> installs;
  \<^item> \<open>sample population k g\<close> is \<^verbatim>\<open>random.sample(population, k)\<close> run in state \<open>g\<close>:
    the exception or the list drawn, and the state it leaves;
  \<^item> \<open>set_difference xs ys\<close> is \<^verbatim>\<open>list(set(xs) - set(ys))\<close>, in the order the
    interpreter iterates the set;
  \<^item> \<open>rnd\<close> is the rounding of float arithmetic, see below.
\<close>

record 'g pylib =
  seed :: "int \<Rightarrow> 'g"
  sample :: "nat list \<Rightarrow> int \<Rightarrow> 'g \<Rightarrow> (pyerr + nat list) \<times> 'g"
  set_difference :: "nat list \<Rightarrow> nat list \<Rightarrow> nat list"
  rnd :: "real \<Rightarrow> real"

text \<open>
  Float arithmetic. The result of a float operation is the exact result rounded to a
  float: \<open>rnd x\<close> is the float nearest to the real number \<open>x\<close>, the fourth parameter of
  the model. A literal such as \<^verbatim>\<open>1e-10\<close> is \<open>rnd (1 / 10 ^ 10)\<close>. In the sums of the
  ratio check, results too large for a float (\<^verbatim>\<open>inf\<close>) are not modelled.
\<close>

definition fl_add :: "'g pylib \<Rightarrow> real \<Rightarrow> real \<Rightarrow> real" where
  "fl_add L x y = rnd L (x + y)"

definition fl_sub :: "'g pylib \<Rightarrow> real \<Rightarrow> real \<Rightarrow> real" where
  "fl_sub L x y = rnd L (x - y)"

text \<open>
  \<^verbatim>\<open>n * x\<close> with an \<^verbatim>\<open>int\<close> \<open>n\<close> and a float \<open>x\<close>: \<open>n\<close> is converted to a float first
  (the length of a list is far below the largest float), and the two floats are
  multiplied. The largest float is \<open>2\<^sup>1\<^sup>0\<^sup>2\<^sup>4 - 2\<^sup>9\<^sup>7\<^sup>1\<close>; a product whose magnitude reaches
  \<open>2\<^sup>1\<^sup>0\<^sup>2\<^sup>4 - 2\<^sup>9\<^sup>7\<^sup>0\<close>, half a unit in the last place above it, rounds to an infinity.
  \<open>rounded_product\<close> is the product where it is finite.
\<close>

definition overflows :: "real \<Rightarrow> bool" where
  "overflows x \<longleftrightarrow> real_of_int (2 ^ 1024 - 2 ^ 970) \<le> \<bar>x\<bar>"

definition rounded_product :: "'g pylib \<Rightarrow> nat \<Rightarrow> real \<Rightarrow> real" where
  "rounded_product L n x = rnd L (rnd L (real n) * x)"

definition int_times_float :: "'g pylib \<Rightarrow> nat \<Rightarrow> real \<Rightarrow> pyfloat" where
  "int_times_float L n x =
     (if overflows (rnd L (real n) * x) then Infinity else Finite (rounded_product L n x))"

text \<open>
  The finite binary64 numbers: \<open>m \<sqdot> 2\<^sup>e\<close> with \<open>|m| < 2\<^sup>5\<^sup>3\<close> and \<open>-1074 \<le> e \<le> 971\<close>.
\<close>

definition representable :: "real \<Rightarrow> bool" where
  "representable x \<longleftrightarrow>
     (\<exists>m e. \<bar>m\<bar> < (2::int) ^ 53 \<and>
        ((e \<le> (971::nat) \<and> x = of_int m * 2 ^ e) \<or> (e \<le> 1074 \<and> x = of_int m / 2 ^ e)))"

definition sample_error :: pyerr where
  "sample_error = ValueError ''Sample larger than population or is negative''"

text \<open>
  What the library's documentation promises of these functions, and all the proofs use:
  \<^verbatim>\<open>random.sample\<close> raises \<^verbatim>\<open>ValueError\<close> when \<open>k\<close> is negative or larger than the
  population, and otherwise returns \<open>k\<close> elements taken from distinct positions of the
  population; the list of a set difference holds each element of the difference once;
  rounding to the nearest float is monotone, leaves a float as it is, and moves a number
  \<open>x\<close> by at most \<open>|x| / 2\<^sup>5\<^sup>3\<close> (half a unit in the last place), or by at most
  \<open>1 / 2\<^sup>1\<^sup>0\<^sup>7\<^sup>5\<close> where the floats are subnormal.
\<close>

definition lib_ok :: "'g pylib \<Rightarrow> bool" where
  "lib_ok L \<longleftrightarrow>
     (\<forall>xs k g. \<not> (0 \<le> k \<and> k \<le> int (length xs)) \<longrightarrow> fst (sample L xs k g) = Inl sample_error) \<and>
     (\<forall>xs k g. 0 \<le> k \<and> k \<le> int (length xs) \<longrightarrow>
        (\<exists>ys. fst (sample L xs k g) = Inr ys \<and> length ys = nat k \<and> mset ys \<subseteq># mset xs)) \<and>
     (\<forall>xs ys. distinct (set_difference L xs ys) \<and>
        set (set_difference L xs ys) = set xs - set ys) \<and>
     (\<forall>x y. x \<le> y \<longrightarrow> rnd L x \<le> rnd L y) \<and>
     (\<forall>x. representable x \<longrightarrow> rnd L x = x) \<and>
     (\<forall>x. \<bar>rnd L x - x\<bar> \<le> \<bar>x\<bar> / 2 ^ 53 + 1 / 2 ^ 1075)"

text \<open>
  A library that meets \<open>lib_ok\<close>, to run the model on concrete inputs: the generator
  state is a number, a sample is the first \<open>k\<close> elements of the population rotated by
  the state, a set is listed in the order of first occurrence, and the arithmetic is
  exact (nothing is rounded).
\<close>

definition demo_sample :: "nat list \<Rightarrow> int \<Rightarrow> nat \<Rightarrow> (pyerr + nat list) \<times> nat" where
  "demo_sample xs k g =
     (if 0 \<le> k \<and> k \<le> int (length xs) then (Inr (take (nat k) (rotate g xs)), Suc g)
      else (Inl sample_error, g))"

definition demo_set_difference :: "nat list \<Rightarrow> nat list \<Rightarrow> nat list" where
  "demo_set_difference xs ys = filter (\<lambda>i. i \<notin> set ys) (remdups xs)"

definition demo_seed :: "int \<Rightarrow> nat" where
  "demo_seed a = nat \<bar>a\<bar>"

definition demo_lib :: "nat pylib" where
  "demo_lib = \<lparr> seed = demo_seed, sample = demo_sample,
                set_difference = demo_set_difference, rnd = (\<lambda>x. x) \<rparr>"

section \<open>The splitter\<close>

text \<open>
  \<^verbatim>\<open>items = list(data.items())\<close> for a dict, \<^verbatim>\<open>items = data.copy()\<close> for a list: an item
  is a (key, value) pair or an element.
\<close>

datatype item = Pair string json | Elem json

fun items_of :: "json \<Rightarrow> item list" where
  "items_of (JDict kvs) = map (\<lambda>(k, v). Pair k v) kvs"
| "items_of (JList xs) = map Elem xs"
| "items_of _ = []"

text \<open>
  \<^verbatim>\<open>[items[i] for i in indices]\<close>: an index past the end raises \<^verbatim>\<open>IndexError\<close> (the
  indices are never negative).
\<close>

fun select :: "'a list \<Rightarrow> nat list \<Rightarrow> pyerr + 'a list" where
  "select items [] = Inr []"
| "select items (i # idx) =
     (if i < length items
      then (case select items idx of Inl e \<Rightarrow> Inl e | Inr ys \<Rightarrow> Inr (items ! i # ys))
      else Inl (IndexError ''list index out of range''))"

text \<open>
  The subset as returned: \<^verbatim>\<open>dict(train_set)\<close> when the input was a dict, the list of
  the selected elements otherwise.
\<close>

fun convert_back :: "json \<Rightarrow> item list \<Rightarrow> json" where
  "convert_back (JDict kvs) its = JDict (py_dict [(k, v). Pair k v \<leftarrow> its])"
| "convert_back _ its = JList [v. Elem v \<leftarrow> its]"

record split_indices =
  train_indices :: "nat list"
  val_indices :: "nat list"
  test_indices :: "nat list"

record split_result =
  train_set :: json
  val_set :: json
  test_set :: json
  indices :: split_indices

definition data_type_error :: pyerr where
  "data_type_error = TypeError ''Data must be a list or dictionary''"

definition ratio_error :: pyerr where
  "ratio_error = ValueError ''Ratios must sum to 1''"

text \<open>
  The three ratios sum to 1.0 within the absolute tolerance \<open>1e-10\<close>, the sum and the
  difference computed in floats as the program computes them.
\<close>

definition ratios_sum_to_1 :: "'g pylib \<Rightarrow> real \<Rightarrow> real \<Rightarrow> real \<Rightarrow> bool" where
  "ratios_sum_to_1 L train_ratio val_ratio test_ratio \<longleftrightarrow>
     \<bar>fl_sub L (fl_add L (fl_add L train_ratio val_ratio) test_ratio) 1\<bar> \<le> rnd L (1 / 10 ^ 10)"

text \<open>
  \<^verbatim>\<open>split_dataset(data, train_ratio, val_ratio, test_ratio, random_seed)\<close>, run with the
  process-wide generator in state \<open>g\<close>: what the call raises or returns, and the state
  of the generator after it.
\<close>

definition split_dataset ::
  "'g pylib \<Rightarrow> json \<Rightarrow> real \<Rightarrow> real \<Rightarrow> real \<Rightarrow> int \<Rightarrow> 'g \<Rightarrow> (pyerr + split_result) \<times> 'g" where
  "split_dataset L data train_ratio val_ratio test_ratio random_seed g =
     (if \<not> is_list_or_dict data then (Inl data_type_error, g)
      else if \<bar>fl_sub L (fl_add L (fl_add L train_ratio val_ratio) test_ratio) 1\<bar>
                > rnd L (1 / 10 ^ 10)
           then (Inl ratio_error, g)
      else
        (let g1 = seed L random_seed;
             items = items_of data;
             total_size = length items;
             all_indices = [0..<total_size]
         in (case py_int (int_times_float L total_size train_ratio) of
               Inl e \<Rightarrow> (Inl e, g1)
             | Inr train_size \<Rightarrow>
            (case py_int (int_times_float L total_size val_ratio) of
               Inl e \<Rightarrow> (Inl e, g1)
             | Inr val_size \<Rightarrow>
            (case sample L all_indices train_size g1 of
               (Inl e, g2) \<Rightarrow> (Inl e, g2)
             | (Inr train_idx, g2) \<Rightarrow>
                (let remaining_indices = set_difference L all_indices train_idx
                 in (case sample L remaining_indices val_size g2 of
                       (Inl e, g3) \<Rightarrow> (Inl e, g3)
                     | (Inr val_idx, g3) \<Rightarrow>
                        (let test_idx = set_difference L remaining_indices val_idx
                         in (case select items train_idx of
                               Inl e \<Rightarrow> (Inl e, g3)
                             | Inr train_items \<Rightarrow>
                            (case select items val_idx of
                               Inl e \<Rightarrow> (Inl e, g3)
                             | Inr val_items \<Rightarrow>
                            (case select items test_idx of
                               Inl e \<Rightarrow> (Inl e, g3)
                             | Inr test_items \<Rightarrow>
                                (Inr \<lparr> train_set = convert_back data train_items,
                                       val_set = convert_back data val_items,
                                       test_set = convert_back data test_items,
                                       indices = \<lparr> train_indices = train_idx,
                                                   val_indices = val_idx,
                                                   test_indices = test_idx \<rparr> \<rparr>, g3))))))))))))"

text \<open>
  To state what the splitter returns: whether the two products \<^verbatim>\<open>total_size * ratio\<close>
  are finite, the sizes it computes from them when they are, whether both draws are
  possible (the products finite and neither sample size negative or larger than its
  population), and the items of \<open>data\<close> at given positions, in the shape of \<open>data\<close>.
\<close>

definition n_items :: "json \<Rightarrow> nat" where
  "n_items data = length (items_of data)"

definition products_finite :: "'g pylib \<Rightarrow> json \<Rightarrow> real \<Rightarrow> real \<Rightarrow> bool" where
  "products_finite L data train_ratio val_ratio \<longleftrightarrow>
     int_times_float L (n_items data) train_ratio \<noteq> Infinity \<and>
     int_times_float L (n_items data) val_ratio \<noteq> Infinity"

definition n_train :: "'g pylib \<Rightarrow> json \<Rightarrow> real \<Rightarrow> int" where
  "n_train L data train_ratio = trunc (rounded_product L (n_items data) train_ratio)"

definition n_val :: "'g pylib \<Rightarrow> json \<Rightarrow> real \<Rightarrow> int" where
  "n_val L data val_ratio = trunc (rounded_product L (n_items data) val_ratio)"

definition draws_possible :: "'g pylib \<Rightarrow> json \<Rightarrow> real \<Rightarrow> real \<Rightarrow> bool" where
  "draws_possible L data train_ratio val_ratio \<longleftrightarrow>
     products_finite L data train_ratio val_ratio \<and>
     0 \<le> n_train L data train_ratio \<and> n_train L data train_ratio \<le> int (n_items data) \<and>
     0 \<le> n_val L data val_ratio \<and>
     n_val L data val_ratio \<le> int (n_items data) - n_train L data train_ratio"

fun subset_at :: "json \<Rightarrow> nat list \<Rightarrow> json" where
  "subset_at (JDict kvs) idx = JDict (map ((!) kvs) idx)"
| "subset_at (JList xs) idx = JList (map ((!) xs) idx)"
| "subset_at v idx = v"

section \<open>The record flattener\<close>

text \<open>
  \<^verbatim>\<open>for x in v\<close>: a list yields its elements, a dict its keys, a string its characters;
  other values are not iterable.
\<close>

fun py_iter :: "json \<Rightarrow> pyerr + json list" where
  "py_iter (JList xs) = Inr xs"
| "py_iter (JDict kvs) = Inr (map (\<lambda>(k, v). JStr k) kvs)"
| "py_iter (JStr s) = Inr (map (\<lambda>c. JStr [c]) s)"
| "py_iter _ = Inl (TypeError ''object is not iterable'')"

text \<open>
  \<^verbatim>\<open>seq[i]\<close> on a list or a string: a negative index counts from the end, an index out
  of range raises \<^verbatim>\<open>IndexError\<close>. A \<^verbatim>\<open>bool\<close> is an \<^verbatim>\<open>int\<close> and indexes as 0 or 1.
\<close>

definition seq_getitem :: "'a list \<Rightarrow> int \<Rightarrow> pyerr + 'a" where
  "seq_getitem xs i =
     (if 0 \<le> i \<and> i < int (length xs) then Inr (xs ! nat i)
      else if i < 0 \<and> - int (length xs) \<le> i then Inr (xs ! nat (int (length xs) + i))
      else Inl (IndexError ''index out of range''))"

fun as_index :: "json \<Rightarrow> int option" where
  "as_index (JInt i) = Some i"
| "as_index (JBool b) = Some (if b then 1 else 0)"
| "as_index _ = None"

text \<open>
  \<^verbatim>\<open>obj[key]\<close>. The keys of a dict are strings: any other hashable key is missing, a
  list or a dict as key is unhashable.
\<close>

fun py_getitem :: "json \<Rightarrow> json \<Rightarrow> pyerr + json" where
  "py_getitem (JDict kvs) key =
     (case key of
        JStr k \<Rightarrow> (case map_of kvs k of Some v \<Rightarrow> Inr v | None \<Rightarrow> Inl (KeyError key))
      | JList xs \<Rightarrow> Inl (TypeError ''unhashable type'')
      | JDict d \<Rightarrow> Inl (TypeError ''unhashable type'')
      | _ \<Rightarrow> Inl (KeyError key))"
| "py_getitem (JList xs) key =
     (case as_index key of
        Some i \<Rightarrow> seq_getitem xs i
      | None \<Rightarrow> Inl (TypeError ''list indices must be integers or slices''))"
| "py_getitem (JStr s) key =
     (case as_index key of
        Some i \<Rightarrow> (case seq_getitem s i of Inl e \<Rightarrow> Inl e | Inr c \<Rightarrow> Inr (JStr [c]))
      | None \<Rightarrow> Inl (TypeError ''string indices must be integers''))"
| "py_getitem _ key = Inl (TypeError ''object is not subscriptable'')"

text \<open>\<^verbatim>\<open>dataset[entry][name]\<close>\<close>

definition field_of :: "json \<Rightarrow> json \<Rightarrow> string \<Rightarrow> pyerr + json" where
  "field_of dataset entry name =
     (case py_getitem dataset entry of Inl e \<Rightarrow> Inl e | Inr r \<Rightarrow> py_getitem r (JStr name))"

text \<open>
  \<^verbatim>\<open>f"{c}\\n"\<close>: a string is inserted as it is; for any other value the interpreter
  inserts \<^verbatim>\<open>str(c)\<close>, which is the parameter \<open>str_of\<close> of the model.
\<close>

definition newline :: string where
  "newline = [CHR 0x0A]"

fun py_format :: "(json \<Rightarrow> string) \<Rightarrow> json \<Rightarrow> string" where
  "py_format str_of (JStr s) = s"
| "py_format str_of v = str_of v"

text \<open>
  The body of the loop for one \<open>entry\<close>: the object handed to \<^verbatim>\<open>json.dumps\<close>, or the
  exception raised on the way. The fields are read in the order of the source.
\<close>

definition flatten_entry :: "(json \<Rightarrow> string) \<Rightarrow> json \<Rightarrow> json \<Rightarrow> pyerr + json" where
  "flatten_entry str_of dataset entry =
     (case field_of dataset entry ''CONTEXTS'' of Inl e \<Rightarrow> Inl e | Inr contexts \<Rightarrow>
     (case py_iter contexts of Inl e \<Rightarrow> Inl e | Inr cs \<Rightarrow>
     (let conclusion = foldl (\<lambda>conclusion c. conclusion @ py_format str_of c @ newline) [] cs
      in
     (case field_of dataset entry ''LONG_ANSWER'' of Inl e \<Rightarrow> Inl e | Inr long_answer \<Rightarrow>
     (let conclusion = conclusion @ py_format str_of long_answer @ newline
      in
     (case field_of dataset entry ''QUESTION'' of Inl e \<Rightarrow> Inl e | Inr question \<Rightarrow>
     (case field_of dataset entry ''MESHES'' of Inl e \<Rightarrow> Inl e | Inr meshes \<Rightarrow>
     (case field_of dataset entry ''final_decision'' of Inl e \<Rightarrow> Inl e | Inr final_decision \<Rightarrow>
        Inr (JDict [(''idx'', entry),
                    (''QUESTION'', question),
                    (''CONCLUSION'', JStr conclusion),
                    (''TYPE'', meshes),
                    (''FINAL_DECISION'', final_decision)])))))))))"

text \<open>
  The loop over the entries. The file is modelled by the list of the objects written,
  one per line (\<^verbatim>\<open>json.dumps\<close> puts an object on one line; the encoding of an object as
  text and failures of the file system are not modelled). An exception ends the loop
  and leaves the lines written so far in the file.
\<close>

fun flatten_loop ::
  "(json \<Rightarrow> string) \<Rightarrow> json \<Rightarrow> json list \<Rightarrow> json list \<Rightarrow> json list \<times> pyerr option" where
  "flatten_loop str_of dataset [] written = (written, None)"
| "flatten_loop str_of dataset (entry # rest) written =
     (case flatten_entry str_of dataset entry of
        Inl e \<Rightarrow> (written, Some e)
      | Inr line \<Rightarrow> flatten_loop str_of dataset rest (written @ [line]))"

text \<open>
  \<^verbatim>\<open>organize_conclusion(dataset, filename)\<close>: the content of the file after the call, and
  the exception the call ends with, if any.
\<close>

definition organize_conclusion :: "(json \<Rightarrow> string) \<Rightarrow> json \<Rightarrow> json list \<times> pyerr option" where
  "organize_conclusion str_of dataset =
     (case py_iter dataset of
        Inl e \<Rightarrow> ([], Some e)
      | Inr entries \<Rightarrow> flatten_loop str_of dataset entries [])"

text \<open>A stand-in for \<^verbatim>\<open>str\<close> on values that are not strings, to run the model.\<close>

fun demo_str :: "json \<Rightarrow> string" where
  "demo_str JNull = ''None''"
| "demo_str (JBool b) = (if b then ''True'' else ''False'')"
| "demo_str (JStr s) = s"
| "demo_str _ = ''?''"

text \<open>
  A record as the data model has it: a dict with a list of strings under \<^verbatim>\<open>CONTEXTS\<close>,
  a string under \<^verbatim>\<open>LONG_ANSWER\<close>, and any values under \<^verbatim>\<open>QUESTION\<close>, \<^verbatim>\<open>MESHES\<close> and
  \<^verbatim>\<open>final_decision\<close>.
\<close>

fun strings_of :: "json list \<Rightarrow> string list option" where
  "strings_of [] = Some []"
| "strings_of (JStr s # vs) = (case strings_of vs of Some ss \<Rightarrow> Some (s # ss) | None \<Rightarrow> None)"
| "strings_of (v # vs) = None"

record flat_record =
  contexts :: "string list"
  long_answer :: string
  question :: json
  meshes :: json
  final_decision :: json

definition read_record :: "json \<Rightarrow> flat_record option" where
  "read_record r =
     (case r of
        JDict fs \<Rightarrow>
          (case (map_of fs ''CONTEXTS'', map_of fs ''LONG_ANSWER'',
                 map_of fs ''QUESTION'', map_of fs ''MESHES'',
                 map_of fs ''final_decision'') of
             (Some (JList cs), Some (JStr la), Some q, Some m, Some fd) \<Rightarrow>
               (case strings_of cs of
                  Some ss \<Rightarrow> Some \<lparr> contexts = ss, long_answer = la, question = q,
                                     meshes = m, final_decision = fd \<rparr>
                | None \<Rightarrow> None)
           | _ \<Rightarrow> None)
      | _ \<Rightarrow> None)"

text \<open>
  The output line the specification describes for a record: the conclusion is each
  string of \<^verbatim>\<open>CONTEXTS\<close> followed by a newline, then \<^verbatim>\<open>LONG_ANSWER\<close> followed by a
  newline.
\<close>

definition spec_conclusion :: "flat_record \<Rightarrow> string" where
  "spec_conclusion r = concat (map (\<lambda>c. c @ newline) (contexts r)) @ long_answer r @ newline"

definition spec_line :: "string \<Rightarrow> flat_record \<Rightarrow> json" where
  "spec_line ident r =
     JDict [(''idx'', JStr ident),
            (''QUESTION'', question r),
            (''CONCLUSION'', JStr (spec_conclusion r)),
            (''TYPE'', meshes r),
            (''FINAL_DECISION'', final_decision r)]"

text \<open>The fields a record must have.\<close>

definition required_fields :: "string list" where
  "required_fields = [''CONTEXTS'', ''LONG_ANSWER'', ''QUESTION'', ''MESHES'', ''final_decision'']"

fun is_dict :: "json \<Rightarrow> bool" where
  "is_dict (JDict kvs) = True"
| "is_dict _ = False"

fun has_required_fields :: "json \<Rightarrow> bool" where
  "has_required_fields (JDict fs) = list_all (\<lambda>name. map_of fs name \<noteq> None) required_fields"
| "has_required_fields _ = False"

section \<open>Properties of the splitter\<close>

subsection \<open>The library and the helpers\<close>

lemma trunc_nonneg: "0 \<le> x \<Longrightarrow> trunc x = \<lfloor>x\<rfloor>"
  by (simp add: trunc_def)

lemma demo_lib_ok: "lib_ok demo_lib"
proof -
  have sub: "mset (take n (rotate g xs)) \<subseteq># mset xs" for n g and xs :: "nat list"
  proof -
    have "mset (take n (rotate g xs)) \<subseteq># mset (take n (rotate g xs)) + mset (drop n (rotate g xs))"
      by simp
    also have "\<dots> = mset (rotate g xs)"
      by (simp flip: mset_append)
    also have "\<dots> = mset xs"
      by (metis rotate_drop_take mset_append add.commute append_take_drop_id)
    finally show ?thesis .
  qed
  show ?thesis
    unfolding lib_ok_def demo_lib_def
    by (auto simp: demo_sample_def demo_set_difference_def sub)
qed

lemma select_in_range:
  "\<forall>i\<in>set idx. i < length xs \<Longrightarrow> select xs idx = Inr (map ((!) xs) idx)"
  by (induction idx) auto

lemma dict_setitem_new: "k \<notin> fst ` set d \<Longrightarrow> dict_setitem d k v = d @ [(k, v)]"
  by (induction d k v rule: dict_setitem.induct) auto

lemma foldl_setitem_distinct:
  "distinct (map fst (d @ ps)) \<Longrightarrow> foldl (\<lambda>d (k, v). dict_setitem d k v) d ps = d @ ps"
proof (induction ps arbitrary: d)
  case Nil
  then show ?case by simp
next
  case (Cons p ps)
  obtain k v where p: "p = (k, v)" by (cases p)
  from Cons.prems have new: "k \<notin> fst ` set d" by (auto simp: p)
  from Cons.prems have "distinct (map fst ((d @ [(k, v)]) @ ps))" by (simp add: p)
  from Cons.IH [OF this] show ?case by (simp add: p dict_setitem_new [OF new])
qed

lemma py_dict_distinct: "distinct (map fst ps) \<Longrightarrow> py_dict ps = ps"
  using foldl_setitem_distinct [of "[]" ps] by (simp add: py_dict_def)

lemma distinct_sub_mset:
  assumes "mset ys \<subseteq># mset xs" and "distinct xs"
  shows "distinct ys"
  unfolding distinct_count_atmost_1
proof (intro allI)
  fix a
  have "count (mset ys) a \<le> count (mset xs) a"
    using assms(1) by (rule mset_subset_eq_count)
  moreover have "count (mset xs) a \<le> 1"
    using assms(2) by (simp add: distinct_count_atmost_1)
  ultimately have le: "count (mset ys) a \<le> 1"
    by linarith
  show "count (mset ys) a = (if a \<in> set ys then 1 else 0)"
  proof (cases "a \<in> set ys")
    case True
    then have "0 < count (mset ys) a" by simp
    with le have "count (mset ys) a = 1" by linarith
    with True show ?thesis by (simp only: if_True)
  next
    case False
    then show ?thesis by simp
  qed
qed

lemma sample_Inr:
  assumes "lib_ok L" and "0 \<le> k" and "k \<le> int (length xs)" and "distinct xs"
  obtains ys g' where "sample L xs k g = (Inr ys, g')" and "length ys = nat k"
    and "distinct ys" and "set ys \<subseteq> set xs"
proof -
  from assms(1-3) obtain ys where ys: "fst (sample L xs k g) = Inr ys" "length ys = nat k"
    "mset ys \<subseteq># mset xs"
    unfolding lib_ok_def by blast
  from ys(3) assms(4) have "distinct ys"
    by (rule distinct_sub_mset)
  moreover from ys(3) have "set ys \<subseteq> set xs"
    by (metis set_mset_mono set_mset_mset)
  moreover from ys(1) have "sample L xs k g = (Inr ys, snd (sample L xs k g))"
    by (metis prod.collapse)
  ultimately show ?thesis using that ys(2) by blast
qed

lemma sample_Inl:
  assumes "lib_ok L" and "\<not> (0 \<le> k \<and> k \<le> int (length xs))"
  obtains g' where "sample L xs k g = (Inl sample_error, g')"
proof -
  from assms have "fst (sample L xs k g) = Inl sample_error"
    unfolding lib_ok_def by blast
  then have "sample L xs k g = (Inl sample_error, snd (sample L xs k g))"
    by (metis prod.collapse)
  then show ?thesis using that by blast
qed

lemma set_difference_props:
  assumes "lib_ok L"
  shows "distinct (set_difference L xs ys)" and "set (set_difference L xs ys) = set xs - set ys"
  using assms unfolding lib_ok_def by blast+

lemma rnd_mono: "lib_ok L \<Longrightarrow> x \<le> y \<Longrightarrow> rnd L x \<le> rnd L y"
  unfolding lib_ok_def by blast

lemma rnd_id: "lib_ok L \<Longrightarrow> representable x \<Longrightarrow> rnd L x = x"
  unfolding lib_ok_def by blast

lemma representable_int: "\<bar>m\<bar> < 2 ^ 53 \<Longrightarrow> representable (of_int m)"
  unfolding representable_def by (rule exI [of _ m], rule exI [of _ 0]) simp

lemma representable_nat: "n < 2 ^ 53 \<Longrightarrow> representable (real n)"
  using representable_int [of "int n"] by simp

lemma representable_dyadic:
  "\<bar>m\<bar> < 2 ^ 53 \<Longrightarrow> k \<le> 1074 \<Longrightarrow> representable (of_int m / 2 ^ k)"
  unfolding representable_def by blast

lemma rnd_int: "lib_ok L \<Longrightarrow> \<bar>m\<bar> < 2 ^ 53 \<Longrightarrow> rnd L (of_int m) = of_int m"
  by (simp add: rnd_id representable_int)

lemma rnd_nat: "lib_ok L \<Longrightarrow> n < 2 ^ 53 \<Longrightarrow> rnd L (real n) = real n"
  by (simp add: rnd_id representable_nat)

lemma rnd_0: "lib_ok L \<Longrightarrow> rnd L 0 = 0"
  using rnd_int [of L 0] by simp

lemma rnd_1: "lib_ok L \<Longrightarrow> rnd L 1 = 1"
  using rnd_int [of L 1] by simp

lemma rnd_nonneg: "lib_ok L \<Longrightarrow> 0 \<le> x \<Longrightarrow> 0 \<le> rnd L x"
  using rnd_mono [of L 0 x] by (simp add: rnd_0)

lemma rnd_bracket:
  assumes L: "lib_ok L" and "\<bar>lo\<bar> < 2 ^ 53" and "\<bar>hi\<bar> < 2 ^ 53" and "k \<le> 1074"
    and "of_int lo / 2 ^ k \<le> x" and "x \<le> of_int hi / 2 ^ k"
  shows "of_int lo / 2 ^ k \<le> rnd L x \<and> rnd L x \<le> of_int hi / 2 ^ k"
proof -
  have "rnd L (of_int lo / 2 ^ k) = of_int lo / 2 ^ k" "rnd L (of_int hi / 2 ^ k) = of_int hi / 2 ^ k"
    using assms(2-4) by (simp_all add: rnd_id [OF L] representable_dyadic)
  with rnd_mono [OF L assms(5)] rnd_mono [OF L assms(6)] show ?thesis by simp
qed

lemma rounded_product_0: "lib_ok L \<Longrightarrow> rounded_product L 0 x = 0"
  by (simp add: rounded_product_def rnd_0)

lemma rounded_product_zero: "lib_ok L \<Longrightarrow> rounded_product L n 0 = 0"
  by (simp add: rounded_product_def rnd_0)

lemma rounded_product_nonneg: "lib_ok L \<Longrightarrow> 0 \<le> x \<Longrightarrow> 0 \<le> rounded_product L n x"
  by (simp add: rounded_product_def rnd_nonneg)

lemma rounded_product_int:
  assumes "lib_ok L" and "n < 2 ^ 53" and "real n * x = of_int m" and "\<bar>m\<bar> < 2 ^ 53"
  shows "rounded_product L n x = of_int m"
  using assms by (simp add: rounded_product_def rnd_nat rnd_int)

lemma not_overflows: "\<bar>x\<bar> \<le> 2 ^ 64 \<Longrightarrow> \<not> overflows x"
  by (simp add: overflows_def)

lemma product_not_overflows:
  assumes L: "lib_ok L" and n: "n < 2 ^ 53" and x: "\<bar>x\<bar> \<le> 2"
  shows "\<not> overflows (rnd L (real n) * x)"
proof -
  have "real n < real (2 ^ 53)" using n by (rule iffD2 [OF of_nat_less_iff])
  then have r: "real n \<le> 2 ^ 53" by simp
  have "\<bar>real n * x\<bar> = real n * \<bar>x\<bar>" by (simp add: abs_mult)
  also have "\<dots> \<le> 2 ^ 53 * 2" using r x by (intro mult_mono) simp_all
  finally have "\<bar>real n * x\<bar> \<le> 2 ^ 64" by simp
  then have "\<not> overflows (real n * x)" by (rule not_overflows)
  then show ?thesis using L n by (simp add: rnd_nat)
qed

lemma int_times_float_Infinity:
  "int_times_float L n x = Infinity \<longleftrightarrow> overflows (rnd L (real n) * x)"
  by (simp add: int_times_float_def)

lemma int_times_float_Finite:
  "int_times_float L n x \<noteq> Infinity \<Longrightarrow> int_times_float L n x = Finite (rounded_product L n x)"
  by (simp add: int_times_float_def split: if_splits)

lemma products_finiteI:
  assumes "lib_ok L" and "n_items data < 2 ^ 53" and "\<bar>tr\<bar> \<le> 2" and "\<bar>vr\<bar> \<le> 2"
  shows "products_finite L data tr vr"
  using assms by (simp add: products_finite_def int_times_float_Infinity product_not_overflows)

lemma sizes_of_products:
  assumes "products_finite L data tr vr"
  shows "py_int (int_times_float L (n_items data) tr) = Inr (n_train L data tr)"
    and "py_int (int_times_float L (n_items data) vr) = Inr (n_val L data vr)"
  using assms
  by (simp_all add: products_finite_def int_times_float_Finite n_train_def n_val_def)

lemma size_of_infinite_product:
  assumes "\<not> products_finite L data tr vr"
  shows "py_int (int_times_float L (n_items data) tr) = Inl overflow_error \<or>
     (py_int (int_times_float L (n_items data) tr) = Inr (n_train L data tr) \<and>
      py_int (int_times_float L (n_items data) vr) = Inl overflow_error)"
proof (cases "int_times_float L (n_items data) tr = Infinity")
  case True
  then show ?thesis by simp
next
  case False
  with assms have "int_times_float L (n_items data) vr = Infinity"
    by (simp add: products_finite_def)
  with False show ?thesis by (simp add: int_times_float_Finite n_train_def)
qed

lemma elems_of_picked:
  "\<forall>i\<in>set idx. i < length xs \<Longrightarrow>
     [v. Elem v \<leftarrow> map ((!) (items_of (JList xs))) idx] = map ((!) xs) idx"
  by (induction idx) auto

lemma pairs_of_picked:
  "\<forall>i\<in>set idx. i < length kvs \<Longrightarrow>
     [(k, v). Pair k v \<leftarrow> map ((!) (items_of (JDict kvs))) idx] = map ((!) kvs) idx"
  by (induction idx) (auto split: prod.splits)

lemma distinct_keys_picked:
  assumes "distinct (map fst kvs)" and "distinct idx" and "\<forall>i\<in>set idx. i < length kvs"
  shows "distinct (map fst (map ((!) kvs) idx))"
proof -
  have "inj_on (\<lambda>i. fst (kvs ! i)) (set idx)"
  proof (rule inj_onI)
    fix i j
    assume ij: "i \<in> set idx" "j \<in> set idx" and eq: "fst (kvs ! i) = fst (kvs ! j)"
    from ij assms(3) have lt: "i < length (map fst kvs)" "j < length (map fst kvs)" by auto
    from eq lt have "map fst kvs ! i = map fst kvs ! j" by simp
    then show "i = j" using nth_eq_iff_index_eq [OF assms(1) lt] by blast
  qed
  with assms(2) show ?thesis by (simp add: distinct_map comp_def)
qed

lemma convert_back_picked:
  assumes "is_list_or_dict data" and "wf_dict data" and "distinct idx"
    and "\<forall>i\<in>set idx. i < n_items data"
  shows "convert_back data (map ((!) (items_of data)) idx) = subset_at data idx"
proof (cases data)
  case (JList xs)
  with assms(4) have "\<forall>i\<in>set idx. i < length xs" by (simp add: n_items_def)
  from elems_of_picked [OF this] show ?thesis
    unfolding JList by (simp only: convert_back.simps subset_at.simps)
next
  case (JDict kvs)
  with assms(4) have r: "\<forall>i\<in>set idx. i < length kvs" by (simp add: n_items_def)
  from JDict assms(2) have "distinct (map fst kvs)" by simp
  then have "distinct (map fst (map ((!) kvs) idx))"
    using assms(3) r by (rule distinct_keys_picked)
  then have "py_dict (map ((!) kvs) idx) = map ((!) kvs) idx"
    by (rule py_dict_distinct)
  with pairs_of_picked [OF r] show ?thesis
    unfolding JDict by (simp only: convert_back.simps subset_at.simps)
qed (use assms(1) in simp_all)

lemma length_remaining:
  assumes "distinct ys" and "set ys \<subseteq> {0..<n}" and "distinct zs" and "set zs = {0..<n} - set ys"
  shows "length zs = n - length ys"
proof -
  have "length zs = card ({0..<n} - set ys)"
    using assms(3,4) by (metis distinct_card)
  also have "\<dots> = card {0..<n} - card (set ys)"
    using assms(2) by (simp add: card_Diff_subset)
  also have "\<dots> = n - length ys"
    using assms(1) by (simp add: distinct_card)
  finally show ?thesis .
qed

subsection \<open>What a call does, case by case\<close>

lemma split_dataset_draws:
  assumes L: "lib_ok L" and coll: "is_list_or_dict data"
    and sum: "ratios_sum_to_1 L tr vr te" and draws: "draws_possible L data tr vr"
  shows "\<exists>ti vi tei g'.
           split_dataset L data tr vr te s g =
             (Inr \<lparr> train_set = convert_back data (map ((!) (items_of data)) ti),
                    val_set = convert_back data (map ((!) (items_of data)) vi),
                    test_set = convert_back data (map ((!) (items_of data)) tei),
                    indices = \<lparr> train_indices = ti, val_indices = vi, test_indices = tei \<rparr> \<rparr>, g') \<and>
           length ti = nat (n_train L data tr) \<and> length vi = nat (n_val L data vr) \<and>
           length tei = n_items data - nat (n_train L data tr) - nat (n_val L data vr) \<and>
           distinct ti \<and> distinct vi \<and> distinct tei \<and>
           set ti \<inter> set vi = {} \<and> set ti \<inter> set tei = {} \<and> set vi \<inter> set tei = {} \<and>
           set ti \<union> set vi \<union> set tei = {0..<n_items data}"
proof -
  define n where "n = n_items data"
  define its where "its = items_of data"
  have n_its: "length its = n" by (simp add: n_def its_def n_items_def)
  from draws have ts: "0 \<le> n_train L data tr" "n_train L data tr \<le> int (length [0..<n])"
    and vs0: "0 \<le> n_val L data vr" and vs1: "n_val L data vr \<le> int n - n_train L data tr"
    and fin: "products_finite L data tr vr"
    by (simp_all add: draws_possible_def n_def)
  note sz = sizes_of_products [OF fin, unfolded n_items_def]
  obtain ti g2 where s1: "sample L [0..<n] (n_train L data tr) (seed L s) = (Inr ti, g2)"
    and lti: "length ti = nat (n_train L data tr)" and dti: "distinct ti"
    and sti: "set ti \<subseteq> set [0..<n]"
    using sample_Inr [OF L ts distinct_upt] by blast
  define rem where "rem = set_difference L [0..<n] ti"
  have drem: "distinct rem" and srem: "set rem = {0..<n} - set ti"
    using set_difference_props [OF L, of "[0..<n]" ti] by (simp_all add: rem_def)
  have lrem: "length rem = n - length ti"
    using dti sti drem srem by (intro length_remaining) simp_all
  from vs1 ts(1) lti lrem have vs2: "n_val L data vr \<le> int (length rem)" by linarith
  obtain vi g3 where s2: "sample L rem (n_val L data vr) g2 = (Inr vi, g3)"
    and lvi: "length vi = nat (n_val L data vr)" and dvi: "distinct vi"
    and svi: "set vi \<subseteq> set rem"
    using sample_Inr [OF L vs0 vs2 drem] by blast
  define tei where "tei = set_difference L rem vi"
  have dtei: "distinct tei" and stei: "set tei = set rem - set vi"
    using set_difference_props [OF L, of rem vi] by (simp_all add: tei_def)
  have ltei: "length tei = length rem - length vi"
  proof -
    have "length tei = card (set rem - set vi)" using dtei stei by (metis distinct_card)
    also have "\<dots> = card (set rem) - card (set vi)" using svi by (simp add: card_Diff_subset)
    finally show ?thesis using drem dvi by (simp add: distinct_card)
  qed
  have rti: "\<forall>i\<in>set ti. i < n" using sti by auto
  have rvi: "\<forall>i\<in>set vi. i < n" using svi srem by auto
  have rtei: "\<forall>i\<in>set tei. i < n" using stei srem by auto
  have sel: "select its ti = Inr (map ((!) its) ti)" "select its vi = Inr (map ((!) its) vi)"
    "select its tei = Inr (map ((!) its) tei)"
    using rti rvi rtei by (simp_all add: select_in_range n_its)
  from sum have chk: "\<not> \<bar>fl_sub L (fl_add L (fl_add L tr vr) te) 1\<bar> > rnd L (1 / 10 ^ 10)" by (simp add: ratios_sum_to_1_def)
  have run: "split_dataset L data tr vr te s g =
      (Inr \<lparr> train_set = convert_back data (map ((!) its) ti),
             val_set = convert_back data (map ((!) its) vi),
             test_set = convert_back data (map ((!) its) tei),
             indices = \<lparr> train_indices = ti, val_indices = vi, test_indices = tei \<rparr> \<rparr>, g3)"
    unfolding split_dataset_def Let_def
    using coll chk s1 s2 sel
    by (simp add: sz n_items_def n_def its_def rem_def tei_def)
  have "length tei = n - nat (n_train L data tr) - nat (n_val L data vr)"
    using ltei lrem lti lvi by simp
  moreover have "set ti \<inter> set vi = {}" using svi srem by auto
  moreover have "set ti \<inter> set tei = {}" using stei srem by auto
  moreover have "set vi \<inter> set tei = {}" using stei by auto
  moreover have "set ti \<union> set vi \<union> set tei = {0..<n}" using sti svi stei srem by auto
  ultimately show ?thesis
    using run lti lvi dti dvi dtei unfolding n_def its_def by blast
qed

lemma split_dataset_returns:
  assumes L: "lib_ok L" and coll: "is_list_or_dict data" and wf: "wf_dict data"
    and sum: "ratios_sum_to_1 L tr vr te" and draws: "draws_possible L data tr vr"
  shows "\<exists>ti vi tei g'.
           split_dataset L data tr vr te s g =
             (Inr \<lparr> train_set = subset_at data ti, val_set = subset_at data vi,
                    test_set = subset_at data tei,
                    indices = \<lparr> train_indices = ti, val_indices = vi, test_indices = tei \<rparr> \<rparr>, g') \<and>
           length ti = nat (n_train L data tr) \<and> length vi = nat (n_val L data vr) \<and>
           length tei = n_items data - nat (n_train L data tr) - nat (n_val L data vr) \<and>
           distinct ti \<and> distinct vi \<and> distinct tei \<and>
           set ti \<inter> set vi = {} \<and> set ti \<inter> set tei = {} \<and> set vi \<inter> set tei = {} \<and>
           set ti \<union> set vi \<union> set tei = {0..<n_items data}"
proof -
  from split_dataset_draws [OF L coll sum draws, of s g]
  obtain ti vi tei g' where run: "split_dataset L data tr vr te s g =
             (Inr \<lparr> train_set = convert_back data (map ((!) (items_of data)) ti),
                    val_set = convert_back data (map ((!) (items_of data)) vi),
                    test_set = convert_back data (map ((!) (items_of data)) tei),
                    indices = \<lparr> train_indices = ti, val_indices = vi, test_indices = tei \<rparr> \<rparr>, g')"
    and len: "length ti = nat (n_train L data tr)" "length vi = nat (n_val L data vr)"
      "length tei = n_items data - nat (n_train L data tr) - nat (n_val L data vr)"
    and dist: "distinct ti" "distinct vi" "distinct tei"
    and disj: "set ti \<inter> set vi = {}" "set ti \<inter> set tei = {}" "set vi \<inter> set tei = {}"
    and un: "set ti \<union> set vi \<union> set tei = {0..<n_items data}"
    by blast
  from un have "\<forall>i\<in>set ti. i < n_items data" "\<forall>i\<in>set vi. i < n_items data"
    "\<forall>i\<in>set tei. i < n_items data" by auto
  with coll wf dist have "convert_back data (map ((!) (items_of data)) ti) = subset_at data ti"
    "convert_back data (map ((!) (items_of data)) vi) = subset_at data vi"
    "convert_back data (map ((!) (items_of data)) tei) = subset_at data tei"
    by (simp_all only: convert_back_picked)
  with run len dist disj un show ?thesis by metis
qed

lemma split_dataset_overflows:
  assumes coll: "is_list_or_dict data" and sum: "ratios_sum_to_1 L tr vr te"
    and inf: "\<not> products_finite L data tr vr"
  shows "split_dataset L data tr vr te s g = (Inl overflow_error, seed L s)"
proof -
  from sum have chk: "\<not> \<bar>fl_sub L (fl_add L (fl_add L tr vr) te) 1\<bar> > rnd L (1 / 10 ^ 10)"
    by (simp add: ratios_sum_to_1_def)
  from size_of_infinite_product [OF inf, unfolded n_items_def] show ?thesis
    unfolding split_dataset_def Let_def using coll chk by auto
qed

lemma split_dataset_raises:
  assumes L: "lib_ok L" and coll: "is_list_or_dict data"
    and sum: "ratios_sum_to_1 L tr vr te" and fin: "products_finite L data tr vr"
    and draws: "\<not> draws_possible L data tr vr"
  shows "fst (split_dataset L data tr vr te s g) = Inl sample_error"
proof -
  define n where "n = n_items data"
  note sz = sizes_of_products [OF fin, unfolded n_items_def]
  from sum have chk: "\<not> \<bar>fl_sub L (fl_add L (fl_add L tr vr) te) 1\<bar> > rnd L (1 / 10 ^ 10)" by (simp add: ratios_sum_to_1_def)
  show ?thesis
  proof (cases "0 \<le> n_train L data tr \<and> n_train L data tr \<le> int (length [0..<n])")
    case False
    then obtain g2 where "sample L [0..<n] (n_train L data tr) (seed L s) = (Inl sample_error, g2)"
      using sample_Inl [OF L] by blast
    then show ?thesis
      unfolding split_dataset_def Let_def using coll chk
      by (simp add: sz n_items_def n_def)
  next
    case True
    then have ts: "0 \<le> n_train L data tr" "n_train L data tr \<le> int (length [0..<n])" by simp_all
    obtain ti g2 where s1: "sample L [0..<n] (n_train L data tr) (seed L s) = (Inr ti, g2)"
      and lti: "length ti = nat (n_train L data tr)" and dti: "distinct ti"
      and sti: "set ti \<subseteq> set [0..<n]"
      using sample_Inr [OF L ts distinct_upt] by blast
    define rem where "rem = set_difference L [0..<n] ti"
    have drem: "distinct rem" and srem: "set rem = {0..<n} - set ti"
      using set_difference_props [OF L, of "[0..<n]" ti] by (simp_all add: rem_def)
    have lrem: "length rem = n - length ti"
      using dti sti drem srem by (intro length_remaining) simp_all
    from draws fin True lti lrem
    have "\<not> (0 \<le> n_val L data vr \<and> n_val L data vr \<le> int (length rem))"
      by (auto simp: draws_possible_def n_def)
    then obtain g3 where "sample L rem (n_val L data vr) g2 = (Inl sample_error, g3)"
      using sample_Inl [OF L] by blast
    then show ?thesis
      unfolding split_dataset_def Let_def using coll chk s1
      by (simp add: sz n_items_def n_def rem_def)
  qed
qed

lemma split_dataset_type_error:
  "\<not> is_list_or_dict data \<Longrightarrow> split_dataset L data tr vr te s g = (Inl data_type_error, g)"
  by (simp add: split_dataset_def)

lemma split_dataset_ratio_error:
  "is_list_or_dict data \<Longrightarrow> \<not> ratios_sum_to_1 L tr vr te \<Longrightarrow>
     split_dataset L data tr vr te s g = (Inl ratio_error, g)"
  by (simp add: split_dataset_def ratios_sum_to_1_def)

lemma split_dataset_Inr_D:
  assumes L: "lib_ok L" and run: "split_dataset L data tr vr te s g = (Inr r, g')"
  shows "is_list_or_dict data" and "ratios_sum_to_1 L tr vr te" and "draws_possible L data tr vr"
proof -
  show coll: "is_list_or_dict data"
    using run split_dataset_type_error [of data L tr vr te s g] by auto
  show sum: "ratios_sum_to_1 L tr vr te"
    using run coll
      split_dataset_ratio_error [where L = L and data = data and tr = tr and vr = vr and te = te
        and s = s and g = g]
    by auto
  show "draws_possible L data tr vr"
  proof (cases "products_finite L data tr vr")
    case True
    then show ?thesis using run split_dataset_raises [OF L coll sum, of s g] by auto
  next
    case False
    with coll sum have "split_dataset L data tr vr te s g = (Inl overflow_error, seed L s)"
      by (rule split_dataset_overflows)
    with run show ?thesis by simp
  qed
qed

lemma py_len_items: "is_list_or_dict data \<Longrightarrow> py_len data = Inr (n_items data)"
  by (cases data) (simp_all add: n_items_def)

lemma py_len_subset_at: "is_list_or_dict data \<Longrightarrow> py_len (subset_at data idx) = Inr (length idx)"
  by (cases data) simp_all

lemma tolerance_bounds:
  assumes L: "lib_ok L"
  shows "1 / 2 ^ 34 \<le> rnd L (1 / 10 ^ 10)" and "rnd L (1 / 10 ^ 10) \<le> 1 / 2 ^ 33"
  using rnd_bracket [OF L, of 1 2 34 "1 / 10 ^ 10"] by simp_all

subsection \<open>Ratios that are not negative\<close>

text \<open>
  Non-negative ratios that pass the ratio check sum to little more than 1, so on data of
  at most \<open>10\<^sup>9\<close> items the two sample sizes together do not exceed the number of items:
  both draws are possible.
\<close>

lemma rnd_error:
  assumes "lib_ok L"
  shows "\<bar>rnd L x - x\<bar> \<le> \<bar>x\<bar> / 2 ^ 53 + 1 / 2 ^ 60"
proof -
  from assms have "\<bar>rnd L x - x\<bar> \<le> \<bar>x\<bar> / 2 ^ 53 + 1 / 2 ^ 1075"
    unfolding lib_ok_def by blast
  moreover have "(1::real) / 2 ^ 1075 \<le> 1 / 2 ^ 60"
    by (intro divide_left_mono power_increasing) simp_all
  ultimately show ?thesis by linarith
qed

lemma sum_of_passing_ratios:
  assumes L: "lib_ok L" and "0 \<le> tr" and "0 \<le> vr" and "0 \<le> te"
    and sum: "ratios_sum_to_1 L tr vr te"
  shows "tr + vr \<le> 1 + 1 / 2 ^ 30"
proof -
  define s1 where "s1 = rnd L (tr + vr)"
  define s2 where "s2 = rnd L (s1 + te)"
  define d where "d = rnd L (s2 - 1)"
  define T where "T = rnd L (1 / 10 ^ 10)"
  have T: "T \<le> 1 / 2 ^ 33" unfolding T_def using L by (rule tolerance_bounds(2))
  from sum have d: "\<bar>d\<bar> \<le> T"
    by (simp add: ratios_sum_to_1_def fl_add_def fl_sub_def d_def s2_def s1_def T_def)
  have e3: "\<bar>d - (s2 - 1)\<bar> \<le> \<bar>s2 - 1\<bar> / 2 ^ 53 + 1 / 2 ^ 60"
    unfolding d_def using L by (rule rnd_error)
  have e2: "\<bar>s2 - (s1 + te)\<bar> \<le> \<bar>s1 + te\<bar> / 2 ^ 53 + 1 / 2 ^ 60"
    unfolding s2_def using L by (rule rnd_error)
  have e1: "\<bar>s1 - (tr + vr)\<bar> \<le> \<bar>tr + vr\<bar> / 2 ^ 53 + 1 / 2 ^ 60"
    unfolding s1_def using L by (rule rnd_error)
  have s10: "0 \<le> s1" unfolding s1_def using L assms(2,3) by (simp add: rnd_nonneg)
  have b2: "s2 \<le> 1 + 1 / 2 ^ 32"
  proof (cases "1 \<le> s2")
    case True
    with e3 have "(s2 - 1) - d \<le> (s2 - 1) / 2 ^ 53 + 1 / 2 ^ 60" by linarith
    with d T show ?thesis by (simp add: field_simps)
  next
    case False
    then show ?thesis by simp
  qed
  have b1: "s1 + te \<le> 1 + 1 / 2 ^ 31"
  proof -
    have "0 \<le> s1 + te" using s10 assms(4) by simp
    with e2 have "(s1 + te) - s2 \<le> (s1 + te) / 2 ^ 53 + 1 / 2 ^ 60" by linarith
    with b2 show ?thesis by (simp add: field_simps)
  qed
  have "(tr + vr) - s1 \<le> (tr + vr) / 2 ^ 53 + 1 / 2 ^ 60"
    using e1 assms(2,3) by linarith
  moreover have "s1 \<le> 1 + 1 / 2 ^ 31" using b1 assms(4) by linarith
  ultimately show ?thesis by (simp add: field_simps)
qed


lemma sizes_fit:
  assumes L: "lib_ok L" and tr: "0 \<le> tr" and vr: "0 \<le> vr"
    and sum: "tr + vr \<le> 1 + 1 / 2 ^ 30" and small: "n \<le> 10 ^ 9"
  shows "\<lfloor>rounded_product L n tr\<rfloor> + \<lfloor>rounded_product L n vr\<rfloor> \<le> int n"
proof -
  define N where "N = real n"
  define a where "a = N * tr"
  define b where "b = N * vr"
  define P where "P = rnd L a"
  define Q where "Q = rnd L b"
  have N0: "0 \<le> N" by (simp add: N_def)
  have N9: "N \<le> 10 ^ 9"
  proof -
    from small have "real n \<le> real (10 ^ 9)" by (rule iffD2 [OF of_nat_le_iff])
    then show ?thesis by (simp add: N_def)
  qed
  have a0: "0 \<le> a" using N0 tr by (simp add: a_def)
  have b0: "0 \<le> b" using N0 vr by (simp add: b_def)
  have "a + b = N * (tr + vr)" by (simp add: a_def b_def distrib_left)
  also have "\<dots> \<le> N * (1 + 1 / 2 ^ 30)" using sum N0 by (rule mult_left_mono)
  finally have ab: "a + b \<le> N + N / 2 ^ 30" by (simp add: distrib_left)
  have "\<bar>P - a\<bar> \<le> \<bar>a\<bar> / 2 ^ 53 + 1 / 2 ^ 60" unfolding P_def using L by (rule rnd_error)
  with a0 have Pa: "P \<le> a + a / 2 ^ 53 + 1 / 2 ^ 60" by linarith
  have "\<bar>Q - b\<bar> \<le> \<bar>b\<bar> / 2 ^ 53 + 1 / 2 ^ 60" unfolding Q_def using L by (rule rnd_error)
  with b0 have Qb: "Q \<le> b + b / 2 ^ 53 + 1 / 2 ^ 60" by linarith
  have PQ: "P + Q < N + 1" using Pa Qb ab N9 N0 by (simp add: field_simps)
  have "\<lfloor>P\<rfloor> + \<lfloor>Q\<rfloor> \<le> \<lfloor>P + Q\<rfloor>" by (rule le_floor_add)
  moreover have "\<lfloor>P + Q\<rfloor> < int n + 1"
  proof -
    have "P + Q < of_int (int n + 1)" using PQ by (simp add: N_def)
    then show ?thesis by (rule iffD2 [OF floor_less_iff])
  qed
  ultimately have "\<lfloor>P\<rfloor> + \<lfloor>Q\<rfloor> \<le> int n" by linarith
  moreover have "n < 2 ^ 53" using small by simp
  with L have "rnd L (real n) = real n" by (rule rnd_nat)
  then have "rounded_product L n tr = P" and "rounded_product L n vr = Q"
    by (simp_all add: rounded_product_def P_def Q_def a_def b_def N_def)
  ultimately show ?thesis by simp
qed

lemma nonneg_draws_possible:
  assumes L: "lib_ok L" and tr: "0 \<le> tr" and vr: "0 \<le> vr" and te: "0 \<le> te"
    and sum: "ratios_sum_to_1 L tr vr te" and small: "n_items data \<le> 10 ^ 9"
  shows "draws_possible L data tr vr"
proof -
  have s: "tr + vr \<le> 1 + 1 / 2 ^ 30" using L tr vr te sum by (rule sum_of_passing_ratios)
  have fit: "\<lfloor>rounded_product L (n_items data) tr\<rfloor>
      + \<lfloor>rounded_product L (n_items data) vr\<rfloor> \<le> int (n_items data)"
    using L tr vr s small by (rule sizes_fit)
  have p: "0 \<le> rounded_product L (n_items data) tr" using L tr by (rule rounded_product_nonneg)
  have q: "0 \<le> rounded_product L (n_items data) vr" using L vr by (rule rounded_product_nonneg)
  have p': "0 \<le> \<lfloor>rounded_product L (n_items data) tr\<rfloor>" using p by simp
  have q': "0 \<le> \<lfloor>rounded_product L (n_items data) vr\<rfloor>" using q by simp
  have "\<lfloor>rounded_product L (n_items data) tr\<rfloor> \<le> int (n_items data)"
    using fit q' by linarith
  moreover have "\<lfloor>rounded_product L (n_items data) vr\<rfloor>
      \<le> int (n_items data) - \<lfloor>rounded_product L (n_items data) tr\<rfloor>"
    using fit by linarith
  moreover have "products_finite L data tr vr"
  proof -
    have "n_items data < 2 ^ 53" using small by simp
    moreover have "\<bar>tr\<bar> \<le> 2" and "\<bar>vr\<bar> \<le> 2" using s tr vr by simp_all
    ultimately show ?thesis using L by (intro products_finiteI)
  qed
  ultimately show ?thesis using p q
    by (simp add: draws_possible_def n_train_def n_val_def trunc_def)
qed

section \<open>The claims about the splitter\<close>

text \<open>
  Claim C1, as amended. For data that is a list or a dict and ratios that pass the ratio
  check, the call returns exactly when both draws are possible: the two products
  \<^verbatim>\<open>total_size * train_ratio\<close> and \<^verbatim>\<open>total_size * val_ratio\<close> are finite, and neither
  sample size, \<^verbatim>\<open>int\<close> of the product, is negative or larger than its population. When
  a product is infinite, \<^verbatim>\<open>int\<close> raises \<^verbatim>\<open>OverflowError\<close>, after the generator was
  seeded; when the products are finite and a draw is impossible, \<^verbatim>\<open>random.sample\<close>
  raises its \<^verbatim>\<open>ValueError\<close>. When the call returns,
  \<^verbatim>\<open>len(train) + len(val) + len(test) == len(data)\<close>, and the three index lists are free
  of duplicates, pairwise disjoint and cover \<open>{0, \<dots>, len(data) - 1}\<close>. Both draws are
  possible, so the call returns, when none of the three ratios is negative and the
  data has at most \<open>10\<^sup>9\<close> items. When the products are finite, \<open>n_train\<close> and \<open>n_val\<close>
  are the two sample sizes the program computes.
\<close>

theorem split_dataset_partition:
  assumes L: "lib_ok L" and coll: "is_list_or_dict data" and wf: "wf_dict data"
    and sum: "ratios_sum_to_1 L tr vr te"
  shows "(draws_possible L data tr vr \<longrightarrow>
           (\<exists>r g' a b c.
              split_dataset L data tr vr te s g = (Inr r, g') \<and>
              py_len (train_set r) = Inr a \<and> py_len (val_set r) = Inr b \<and>
              py_len (test_set r) = Inr c \<and> py_len data = Inr (a + b + c) \<and>
              distinct (train_indices (indices r)) \<and> distinct (val_indices (indices r)) \<and>
              distinct (test_indices (indices r)) \<and>
              set (train_indices (indices r)) \<inter> set (val_indices (indices r)) = {} \<and>
              set (train_indices (indices r)) \<inter> set (test_indices (indices r)) = {} \<and>
              set (val_indices (indices r)) \<inter> set (test_indices (indices r)) = {} \<and>
              set (train_indices (indices r)) \<union> set (val_indices (indices r)) \<union>
                set (test_indices (indices r)) = {0..<n_items data})) \<and>
         (\<not> products_finite L data tr vr \<longrightarrow>
            split_dataset L data tr vr te s g = (Inl overflow_error, seed L s)) \<and>
         (products_finite L data tr vr \<and> \<not> draws_possible L data tr vr \<longrightarrow>
            fst (split_dataset L data tr vr te s g) = Inl sample_error) \<and>
         (0 \<le> tr \<and> 0 \<le> vr \<and> 0 \<le> te \<and> n_items data \<le> 10 ^ 9 \<longrightarrow>
            draws_possible L data tr vr) \<and>
         (products_finite L data tr vr \<longrightarrow>
            py_int (int_times_float L (n_items data) tr) = Inr (n_train L data tr) \<and>
            py_int (int_times_float L (n_items data) vr) = Inr (n_val L data vr))"
proof (intro conjI impI)
  assume draws: "draws_possible L data tr vr"
  from split_dataset_returns [OF L coll wf sum draws, of s g]
  obtain ti vi tei g' where run: "split_dataset L data tr vr te s g =
             (Inr \<lparr> train_set = subset_at data ti, val_set = subset_at data vi,
                    test_set = subset_at data tei,
                    indices = \<lparr> train_indices = ti, val_indices = vi, test_indices = tei \<rparr> \<rparr>, g')"
    and len: "length ti = nat (n_train L data tr)" "length vi = nat (n_val L data vr)"
      "length tei = n_items data - nat (n_train L data tr) - nat (n_val L data vr)"
    and dist: "distinct ti" "distinct vi" "distinct tei"
    and disj: "set ti \<inter> set vi = {}" "set ti \<inter> set tei = {}" "set vi \<inter> set tei = {}"
    and un: "set ti \<union> set vi \<union> set tei = {0..<n_items data}"
    by blast
  from draws have "nat (n_train L data tr) + nat (n_val L data vr) \<le> n_items data"
    unfolding draws_possible_def by linarith
  with len have total: "length ti + length vi + length tei = n_items data" by simp
  let ?r = "\<lparr> train_set = subset_at data ti, val_set = subset_at data vi,
                    test_set = subset_at data tei,
                    indices = \<lparr> train_indices = ti, val_indices = vi, test_indices = tei \<rparr> \<rparr>"
  have "py_len (train_set ?r) = Inr (length ti)" "py_len (val_set ?r) = Inr (length vi)"
    "py_len (test_set ?r) = Inr (length tei)"
    using coll by (simp_all add: py_len_subset_at)
  moreover have "py_len data = Inr (length ti + length vi + length tei)"
    using coll total by (simp add: py_len_items)
  ultimately show "\<exists>r g' a b c.
              split_dataset L data tr vr te s g = (Inr r, g') \<and>
              py_len (train_set r) = Inr a \<and> py_len (val_set r) = Inr b \<and>
              py_len (test_set r) = Inr c \<and> py_len data = Inr (a + b + c) \<and>
              distinct (train_indices (indices r)) \<and> distinct (val_indices (indices r)) \<and>
              distinct (test_indices (indices r)) \<and>
              set (train_indices (indices r)) \<inter> set (val_indices (indices r)) = {} \<and>
              set (train_indices (indices r)) \<inter> set (test_indices (indices r)) = {} \<and>
              set (val_indices (indices r)) \<inter> set (test_indices (indices r)) = {} \<and>
              set (train_indices (indices r)) \<union> set (val_indices (indices r)) \<union>
                set (test_indices (indices r)) = {0..<n_items data}"
    using run dist disj un
    by (intro exI [of _ ?r] exI [of _ g'] exI [of _ "length ti"] exI [of _ "length vi"]
        exI [of _ "length tei"]) simp
next
  assume "\<not> products_finite L data tr vr"
  with coll sum show "split_dataset L data tr vr te s g = (Inl overflow_error, seed L s)"
    by (rule split_dataset_overflows)
next
  assume "products_finite L data tr vr \<and> \<not> draws_possible L data tr vr"
  then have "products_finite L data tr vr" and "\<not> draws_possible L data tr vr" by simp_all
  with L coll sum show "fst (split_dataset L data tr vr te s g) = Inl sample_error"
    by (rule split_dataset_raises)
next
  assume "0 \<le> tr \<and> 0 \<le> vr \<and> 0 \<le> te \<and> n_items data \<le> 10 ^ 9"
  then have "0 \<le> tr" and "0 \<le> vr" and "0 \<le> te" and "n_items data \<le> 10 ^ 9"
    by simp_all
  with L show "draws_possible L data tr vr"
    using sum by (intro nonneg_draws_possible [where te = te])
next
  assume "products_finite L data tr vr"
  then show "py_int (int_times_float L (n_items data) tr) = Inr (n_train L data tr)"
    by (rule sizes_of_products)
next
  assume "products_finite L data tr vr"
  then show "py_int (int_times_float L (n_items data) vr) = Inr (n_val L data vr)"
    by (rule sizes_of_products)
qed

text \<open>
  Claim C1 as stated fails: the ratios 1.5, -0.5, 0.0 sum to 1.0, and on a list of two
  items the call raises instead of returning a partition.
\<close>

theorem split_negative_ratio_raises:
  "is_list_or_dict (JList [JInt 1, JInt 2]) \<and> ratios_sum_to_1 demo_lib (3 / 2) (- 1 / 2) 0 \<and>
   fst (split_dataset demo_lib (JList [JInt 1, JInt 2]) (3 / 2) (- 1 / 2) 0 42 0) = Inl sample_error"
  by code_simp

lemma demo_draws: "draws_possible demo_lib (JList [JInt 1, JInt 2, JInt 3, JInt 4, JInt 5]) (6 / 10) (2 / 10)"
  by code_simp

text \<open>Claim C1 on a list of five items, split 0.6 / 0.2 / 0.2.\<close>

theorem split_dataset_partition_witness:
  "\<exists>r g' a b c.
      split_dataset demo_lib (JList [JInt 1, JInt 2, JInt 3, JInt 4, JInt 5])
        (6 / 10) (2 / 10) (2 / 10) 42 0 = (Inr r, g') \<and>
      py_len (train_set r) = Inr a \<and> py_len (val_set r) = Inr b \<and>
      py_len (test_set r) = Inr c \<and>
      py_len (JList [JInt 1, JInt 2, JInt 3, JInt 4, JInt 5]) = Inr (a + b + c) \<and>
      distinct (train_indices (indices r)) \<and> distinct (val_indices (indices r)) \<and>
      distinct (test_indices (indices r)) \<and>
      set (train_indices (indices r)) \<inter> set (val_indices (indices r)) = {} \<and>
      set (train_indices (indices r)) \<inter> set (test_indices (indices r)) = {} \<and>
      set (val_indices (indices r)) \<inter> set (test_indices (indices r)) = {} \<and>
      set (train_indices (indices r)) \<union> set (val_indices (indices r)) \<union>
        set (test_indices (indices r)) = {0..<n_items (JList [JInt 1, JInt 2, JInt 3, JInt 4, JInt 5])}"
proof -
  let ?data = "JList [JInt 1, JInt 2, JInt 3, JInt 4, JInt 5]"
  have coll: "is_list_or_dict ?data" by simp
  have wf: "wf_dict ?data" by simp
  have sum: "ratios_sum_to_1 demo_lib (6 / 10) (2 / 10) (2 / 10)" by code_simp
  from split_dataset_partition [OF demo_lib_ok coll wf sum, where s = 42 and g = 0]
  have "draws_possible demo_lib ?data (6 / 10) (2 / 10) \<longrightarrow>
           (\<exists>r g' a b c.
              split_dataset demo_lib ?data (6 / 10) (2 / 10) (2 / 10) 42 0 = (Inr r, g') \<and>
              py_len (train_set r) = Inr a \<and> py_len (val_set r) = Inr b \<and>
              py_len (test_set r) = Inr c \<and> py_len ?data = Inr (a + b + c) \<and>
              distinct (train_indices (indices r)) \<and> distinct (val_indices (indices r)) \<and>
              distinct (test_indices (indices r)) \<and>
              set (train_indices (indices r)) \<inter> set (val_indices (indices r)) = {} \<and>
              set (train_indices (indices r)) \<inter> set (test_indices (indices r)) = {} \<and>
              set (val_indices (indices r)) \<inter> set (test_indices (indices r)) = {} \<and>
              set (train_indices (indices r)) \<union> set (val_indices (indices r)) \<union>
                set (test_indices (indices r)) = {0..<n_items ?data})"
    by (rule conjunct1)
  then show ?thesis using demo_draws by (rule mp)
qed


lemma split_dataset_after_checks:
  "\<exists>outcome. \<forall>g. split_dataset L data tr vr te s g =
     (if \<not> is_list_or_dict data then (Inl data_type_error, g)
      else if \<bar>fl_sub L (fl_add L (fl_add L tr vr) te) 1\<bar> > rnd L (1 / 10 ^ 10)
           then (Inl ratio_error, g)
      else outcome)"
  unfolding split_dataset_def by (rule exI, rule allI, rule refl)

text \<open>
  Claim C2. The outcome of a call (the exception, or the subsets and the index lists)
  does not depend on the state the process-wide generator is in when the call is made:
  \<^verbatim>\<open>random.seed(random_seed)\<close> replaces that state before any sampling. So two calls
  with the same arguments give the same outcome, whatever ran between them; in
  particular a second call made right after the first repeats its outcome.
\<close>

theorem split_dataset_deterministic:
  "fst (split_dataset L data tr vr te s g) = fst (split_dataset L data tr vr te s g') \<and>
   fst (split_dataset L data tr vr te s (snd (split_dataset L data tr vr te s g))) =
     fst (split_dataset L data tr vr te s g)"
proof -
  from split_dataset_after_checks [of L data tr vr te s]
  obtain outcome where run: "\<And>g. split_dataset L data tr vr te s g =
     (if \<not> is_list_or_dict data then (Inl data_type_error, g)
      else if \<bar>fl_sub L (fl_add L (fl_add L tr vr) te) 1\<bar> > rnd L (1 / 10 ^ 10)
           then (Inl ratio_error, g)
      else outcome)"
    by blast
  have "fst (split_dataset L data tr vr te s g1) = fst (split_dataset L data tr vr te s g2)"
    for g1 g2
    by (simp add: run)
  then show ?thesis by blast
qed

text \<open>Claim C2 on a list of five items, from the generator states 0 and 7.\<close>

theorem split_dataset_deterministic_witness:
  "fst (split_dataset demo_lib (JList [JInt 1, JInt 2, JInt 3, JInt 4, JInt 5])
          (6 / 10) (2 / 10) (2 / 10) 42 0) =
   fst (split_dataset demo_lib (JList [JInt 1, JInt 2, JInt 3, JInt 4, JInt 5])
          (6 / 10) (2 / 10) (2 / 10) 42 7)"
  using split_dataset_deterministic [of demo_lib "JList [JInt 1, JInt 2, JInt 3, JInt 4, JInt 5]"
      "6 / 10" "2 / 10" "2 / 10" 42 0 7]
  by (rule conjunct1)


lemma n_train_nonneg:
  "lib_ok L \<Longrightarrow> 0 \<le> tr \<Longrightarrow> n_train L data tr = \<lfloor>rounded_product L (n_items data) tr\<rfloor>"
  by (simp add: n_train_def trunc_def rounded_product_nonneg)

lemma n_val_nonneg:
  "lib_ok L \<Longrightarrow> 0 \<le> vr \<Longrightarrow> n_val L data vr = \<lfloor>rounded_product L (n_items data) vr\<rfloor>"
  by (simp add: n_val_def trunc_def rounded_product_nonneg)

text \<open>
  Claim C3. A valid input is a list or a dict with non-negative ratios on which the
  call returns. Then the two products are finite, the train subset and the train index
  list have \<open>floor(total * train_ratio)\<close> elements, the val subset and the val index list
  have \<open>floor(total * val_ratio)\<close> elements (the products \<open>p\<close> and \<open>q\<close> as the program
  computes them), and the test index list holds every index that is in neither, once:
  the test subset has the remaining
  \<open>total - floor(total * train_ratio) - floor(total * val_ratio)\<close> elements. The call does return when the data is a list or a dict of at most \<open>10\<^sup>9\<close>
  items and the three ratios, none negative, pass the ratio check.
\<close>

theorem split_dataset_sizes:
  assumes L: "lib_ok L" and wf: "wf_dict data" and tr: "0 \<le> tr" and vr: "0 \<le> vr"
  shows "(\<forall>r g'. split_dataset L data tr vr te s g = (Inr r, g') \<longrightarrow>
         (\<exists>p q. int_times_float L (n_items data) tr = Finite p \<and>
            int_times_float L (n_items data) vr = Finite q \<and>
            length (train_indices (indices r)) = nat \<lfloor>p\<rfloor> \<and>
            py_len (train_set r) = Inr (nat \<lfloor>p\<rfloor>) \<and>
            length (val_indices (indices r)) = nat \<lfloor>q\<rfloor> \<and>
            py_len (val_set r) = Inr (nat \<lfloor>q\<rfloor>) \<and>
            distinct (test_indices (indices r)) \<and>
            set (test_indices (indices r)) =
              {0..<n_items data} - set (train_indices (indices r))
                - set (val_indices (indices r)) \<and>
            length (test_indices (indices r)) = n_items data - nat \<lfloor>p\<rfloor> - nat \<lfloor>q\<rfloor> \<and>
            py_len (test_set r) = Inr (n_items data - nat \<lfloor>p\<rfloor> - nat \<lfloor>q\<rfloor>))) \<and>
         (is_list_or_dict data \<and> ratios_sum_to_1 L tr vr te \<and> 0 \<le> te \<and>
          n_items data \<le> 10 ^ 9 \<longrightarrow>
            (\<exists>r g'. split_dataset L data tr vr te s g = (Inr r, g')))"
proof (rule conjI)
  show "\<forall>r g'. split_dataset L data tr vr te s g = (Inr r, g') \<longrightarrow>
         (\<exists>p q. int_times_float L (n_items data) tr = Finite p \<and>
            int_times_float L (n_items data) vr = Finite q \<and>
            length (train_indices (indices r)) = nat \<lfloor>p\<rfloor> \<and>
            py_len (train_set r) = Inr (nat \<lfloor>p\<rfloor>) \<and>
            length (val_indices (indices r)) = nat \<lfloor>q\<rfloor> \<and>
            py_len (val_set r) = Inr (nat \<lfloor>q\<rfloor>) \<and>
            distinct (test_indices (indices r)) \<and>
            set (test_indices (indices r)) =
              {0..<n_items data} - set (train_indices (indices r))
                - set (val_indices (indices r)) \<and>
            length (test_indices (indices r)) = n_items data - nat \<lfloor>p\<rfloor> - nat \<lfloor>q\<rfloor> \<and>
            py_len (test_set r) = Inr (n_items data - nat \<lfloor>p\<rfloor> - nat \<lfloor>q\<rfloor>))"
  proof (intro allI impI)
    fix r g'
    assume run: "split_dataset L data tr vr te s g = (Inr r, g')"
    note D = split_dataset_Inr_D [OF L run]
    from split_dataset_returns [OF L D(1) wf D(2) D(3), of s g]
    obtain ti vi tei g'' where run': "split_dataset L data tr vr te s g =
               (Inr \<lparr> train_set = subset_at data ti, val_set = subset_at data vi,
                      test_set = subset_at data tei,
                      indices = \<lparr> train_indices = ti, val_indices = vi, test_indices = tei \<rparr> \<rparr>, g'')"
      and len: "length ti = nat (n_train L data tr)" "length vi = nat (n_val L data vr)"
        "length tei = n_items data - nat (n_train L data tr) - nat (n_val L data vr)"
      and dist: "distinct ti" "distinct vi" "distinct tei"
      and disj: "set ti \<inter> set vi = {}" "set ti \<inter> set tei = {}" "set vi \<inter> set tei = {}"
      and un: "set ti \<union> set vi \<union> set tei = {0..<n_items data}"
      by blast
    from run run' have r: "r = \<lparr> train_set = subset_at data ti, val_set = subset_at data vi,
                      test_set = subset_at data tei,
                      indices = \<lparr> train_indices = ti, val_indices = vi, test_indices = tei \<rparr> \<rparr>"
      by simp
    note fl = n_train_nonneg [OF L tr, of data] n_val_nonneg [OF L vr, of data]
    from D(3) have fin: "int_times_float L (n_items data) tr =
          Finite (rounded_product L (n_items data) tr)"
        "int_times_float L (n_items data) vr = Finite (rounded_product L (n_items data) vr)"
      by (simp_all add: draws_possible_def products_finite_def int_times_float_Finite)
    have "set (test_indices (indices r)) =
            {0..<n_items data} - set (train_indices (indices r)) - set (val_indices (indices r))"
      using disj un unfolding r by auto
    then show "(\<exists>p q. int_times_float L (n_items data) tr = Finite p \<and>
            int_times_float L (n_items data) vr = Finite q \<and>
            length (train_indices (indices r)) = nat \<lfloor>p\<rfloor> \<and>
            py_len (train_set r) = Inr (nat \<lfloor>p\<rfloor>) \<and>
            length (val_indices (indices r)) = nat \<lfloor>q\<rfloor> \<and>
            py_len (val_set r) = Inr (nat \<lfloor>q\<rfloor>) \<and>
            distinct (test_indices (indices r)) \<and>
            set (test_indices (indices r)) =
              {0..<n_items data} - set (train_indices (indices r))
                - set (val_indices (indices r)) \<and>
            length (test_indices (indices r)) = n_items data - nat \<lfloor>p\<rfloor> - nat \<lfloor>q\<rfloor> \<and>
            py_len (test_set r) = Inr (n_items data - nat \<lfloor>p\<rfloor> - nat \<lfloor>q\<rfloor>))"
      using len dist(3) D(1) by (simp add: r fl fin py_len_subset_at)
  qed
next
  show "is_list_or_dict data \<and> ratios_sum_to_1 L tr vr te \<and> 0 \<le> te \<and>
          n_items data \<le> 10 ^ 9 \<longrightarrow>
            (\<exists>r g'. split_dataset L data tr vr te s g = (Inr r, g'))"
  proof (rule impI)
    assume "is_list_or_dict data \<and> ratios_sum_to_1 L tr vr te \<and> 0 \<le> te \<and>
          n_items data \<le> 10 ^ 9"
    then have coll: "is_list_or_dict data" and sum: "ratios_sum_to_1 L tr vr te"
      and te: "0 \<le> te" and small: "n_items data \<le> 10 ^ 9"
      by simp_all
    have draws: "draws_possible L data tr vr"
      using L tr vr te sum small by (rule nonneg_draws_possible)
    from split_dataset_returns [OF L coll wf sum draws, of s g]
    show "\<exists>r g'. split_dataset L data tr vr te s g = (Inr r, g')" by blast
  qed
qed

text \<open>Claim C3 on a list of five items, split 0.6 / 0.2 / 0.2: the sizes are 3, 1, 1.\<close>

theorem split_dataset_sizes_witness:
  "split_dataset demo_lib (JList [JInt 1, JInt 2, JInt 3, JInt 4, JInt 5])
     (6 / 10) (2 / 10) (2 / 10) 42 0 =
     (Inr \<lparr> train_set = JList [JInt 3, JInt 4, JInt 5], val_set = JList [JInt 2],
            test_set = JList [JInt 1],
            indices = \<lparr> train_indices = [2, 3, 4], val_indices = [1],
                        test_indices = [0] \<rparr> \<rparr>, 44) \<and>
   int_times_float demo_lib 5 (6 / 10) = Finite 3 \<and>
   int_times_float demo_lib 5 (2 / 10) = Finite 1 \<and>
   length [2, 3, 4 :: nat] = nat \<lfloor>3 :: real\<rfloor> \<and> length [1 :: nat] = nat \<lfloor>1 :: real\<rfloor> \<and>
   length [0 :: nat] = 5 - nat \<lfloor>3 :: real\<rfloor> - nat \<lfloor>1 :: real\<rfloor>"
proof -
  let ?data = "JList [JInt 1, JInt 2, JInt 3, JInt 4, JInt 5]"
  let ?r = "\<lparr> train_set = JList [JInt 3, JInt 4, JInt 5], val_set = JList [JInt 2],
            test_set = JList [JInt 1],
            indices = \<lparr> train_indices = [2, 3, 4], val_indices = [1],
                        test_indices = [0] \<rparr> \<rparr>"
  have wf: "wf_dict ?data" by simp
  have n: "n_items ?data = 5" by (simp add: n_items_def)
  have tr: "(0::real) \<le> 6 / 10" and vr: "(0::real) \<le> 2 / 10" by simp_all
  have run: "split_dataset demo_lib ?data (6 / 10) (2 / 10) (2 / 10) 42 0 = (Inr ?r, 44)"
    by code_simp
  have p: "int_times_float demo_lib 5 (6 / 10) = Finite 3"
    and q: "int_times_float demo_lib 5 (2 / 10) = Finite 1"
    by (simp_all add: int_times_float_def rounded_product_def overflows_def demo_lib_def)
  note sizes = split_dataset_sizes [OF demo_lib_ok wf tr vr,
      where te = "2 / 10" and s = 42 and g = 0, THEN conjunct1, rule_format, OF run]
  from sizes run p q show ?thesis unfolding n by simp
qed

lemma errors_differ:
  "ratio_error \<noteq> sample_error" "ratio_error \<noteq> data_type_error"
  "data_type_error \<noteq> sample_error" "ratio_error \<noteq> overflow_error"
  "overflow_error \<noteq> sample_error"
  by (simp_all add: ratio_error_def sample_error_def data_type_error_def overflow_error_def)

lemma no_ratio_error:
  assumes L: "lib_ok L" and sum: "ratios_sum_to_1 L tr vr te"
  shows "fst (split_dataset L data tr vr te s g) \<noteq> Inl ratio_error"
proof (cases "is_list_or_dict data")
  case False
  then show ?thesis using errors_differ by (simp add: split_dataset_type_error)
next
  case coll: True
  show ?thesis
  proof (cases "draws_possible L data tr vr")
    case True
    from split_dataset_draws [OF L coll sum True, of s g] show ?thesis by auto
  next
    case False
    show ?thesis
    proof (cases "products_finite L data tr vr")
      case True
      from split_dataset_raises [OF L coll sum True False, of s g] show ?thesis
        using errors_differ by simp
    next
      case False
      with coll sum have "split_dataset L data tr vr te s g = (Inl overflow_error, seed L s)"
        by (rule split_dataset_overflows)
      then show ?thesis using errors_differ by simp
    qed
  qed
qed

lemma ratios_05_03_03:
  assumes L: "lib_ok L"
  shows "\<not> ratios_sum_to_1 L (rnd L (5 / 10)) (rnd L (3 / 10)) (rnd L (3 / 10))"
proof -
  define a where "a = rnd L (5 / 10)"
  define b where "b = rnd L (3 / 10)"
  define s1 where "s1 = rnd L (a + b)"
  define s2 where "s2 = rnd L (s1 + b)"
  define d where "d = rnd L (s2 - 1)"
  have a: "1 / 2 \<le> a"
    using rnd_bracket [OF L, of 1 1 1 "5 / 10"] by (simp add: a_def)
  have b: "19 / 64 \<le> b"
    using rnd_bracket [OF L, of 19 20 6 "3 / 10"] by (simp add: b_def)
  have "51 / 64 \<le> a + b" using a b by simp
  then have s1: "51 / 64 \<le> s1"
    using rnd_mono [OF L, of "51 / 64" "a + b"] rnd_bracket [OF L, of 51 51 6 "51 / 64"]
    by (simp add: s1_def)
  have "70 / 64 \<le> s1 + b" using s1 b by simp
  then have s2: "70 / 64 \<le> s2"
    using rnd_mono [OF L, of "70 / 64" "s1 + b"] rnd_bracket [OF L, of 70 70 6 "70 / 64"]
    by (simp add: s2_def)
  have "6 / 64 \<le> s2 - 1" using s2 by simp
  then have d: "6 / 64 \<le> d"
    using rnd_mono [OF L, of "6 / 64" "s2 - 1"] rnd_bracket [OF L, of 6 6 6 "6 / 64"]
    by (simp add: d_def)
  from tolerance_bounds(2) [OF L] have "rnd L (1 / 10 ^ 10) < 6 / 64" by simp
  with d have "rnd L (1 / 10 ^ 10) < \<bar>d\<bar>" by linarith
  then show ?thesis
    by (simp add: ratios_sum_to_1_def fl_add_def fl_sub_def d_def s2_def s1_def a_def b_def)
qed

lemma ratios_06_02_02:
  assumes L: "lib_ok L"
  shows "ratios_sum_to_1 L (rnd L (6 / 10)) (rnd L (2 / 10)) (rnd L (2 / 10))"
proof -
  define a where "a = rnd L (6 / 10)"
  define b where "b = rnd L (2 / 10)"
  define s1 where "s1 = rnd L (a + b)"
  define s2 where "s2 = rnd L (s1 + b)"
  define d where "d = rnd L (s2 - 1)"
  have a: "659706976665 / 2 ^ 40 \<le> a \<and> a \<le> 659706976666 / 2 ^ 40"
    using rnd_bracket [OF L, of 659706976665 659706976666 40 "6 / 10"] by (simp add: a_def)
  have b: "219902325555 / 2 ^ 40 \<le> b \<and> b \<le> 219902325556 / 2 ^ 40"
    using rnd_bracket [OF L, of 219902325555 219902325556 40 "2 / 10"] by (simp add: b_def)
  have s1: "879609302220 / 2 ^ 40 \<le> s1 \<and> s1 \<le> 879609302222 / 2 ^ 40"
    using rnd_bracket [OF L, of 879609302220 879609302222 40 "a + b"] a b by (simp add: s1_def)
  have s2: "1099511627775 / 2 ^ 40 \<le> s2 \<and> s2 \<le> 1099511627778 / 2 ^ 40"
    using rnd_bracket [OF L, of 1099511627775 1099511627778 40 "s1 + b"] s1 b by (simp add: s2_def)
  have d: "- 1 / 2 ^ 40 \<le> d \<and> d \<le> 2 / 2 ^ 40"
    using rnd_bracket [OF L, of "- 1" 2 40 "s2 - 1"] s2 by (simp add: d_def)
  have "d \<le> 1 / 2 ^ 34" and "- d \<le> 1 / 2 ^ 34" using d by simp_all
  then have "\<bar>d\<bar> \<le> 1 / 2 ^ 34" by (rule abs_leI)
  with tolerance_bounds(1) [OF L] have "\<bar>d\<bar> \<le> rnd L (1 / 10 ^ 10)" by linarith
  then show ?thesis
    by (simp add: ratios_sum_to_1_def fl_add_def fl_sub_def d_def s2_def s1_def a_def b_def)
qed

text \<open>
  Claim C4. On data that passes the type check, the call raises the ratio error
  (\<^verbatim>\<open>ValueError("Ratios must sum to 1")\<close>) if and only if the ratios do not sum to 1.0
  within \<open>1e-10\<close> (the sum as the program computes it); on other data the type error
  comes first and the ratio error is never raised. When the ratio check fails nothing
  is split and the generator is left as it was. The ratios 0.5, 0.3, 0.3 fail the
  check; the ratios 0.6, 0.2, 0.2 pass it, whatever the rounding of the floats.
\<close>

theorem ratio_validation:
  assumes L: "lib_ok L"
  shows "(is_list_or_dict data \<longrightarrow>
            (fst (split_dataset L data tr vr te s g) = Inl ratio_error \<longleftrightarrow>
               \<not> ratios_sum_to_1 L tr vr te)) \<and>
         (\<not> is_list_or_dict data \<longrightarrow> fst (split_dataset L data tr vr te s g) \<noteq> Inl ratio_error) \<and>
         (is_list_or_dict data \<and> \<not> ratios_sum_to_1 L tr vr te \<longrightarrow>
            split_dataset L data tr vr te s g = (Inl ratio_error, g)) \<and>
         (is_list_or_dict data \<longrightarrow>
            split_dataset L data (rnd L (5 / 10)) (rnd L (3 / 10)) (rnd L (3 / 10)) s g =
              (Inl ratio_error, g)) \<and>
         fst (split_dataset L data (rnd L (6 / 10)) (rnd L (2 / 10)) (rnd L (2 / 10)) s g) \<noteq>
           Inl ratio_error"
proof (intro conjI impI)
  assume coll: "is_list_or_dict data"
  show "fst (split_dataset L data tr vr te s g) = Inl ratio_error \<longleftrightarrow>
          \<not> ratios_sum_to_1 L tr vr te"
    using no_ratio_error [OF L, of tr vr te data s g]
      split_dataset_ratio_error [OF coll, of L tr vr te s g]
    by auto
  from coll ratios_05_03_03 [OF L]
  show "split_dataset L data (rnd L (5 / 10)) (rnd L (3 / 10)) (rnd L (3 / 10)) s g =
      (Inl ratio_error, g)"
    by (rule split_dataset_ratio_error)
next
  assume "\<not> is_list_or_dict data"
  then show "fst (split_dataset L data tr vr te s g) \<noteq> Inl ratio_error"
    using errors_differ by (simp add: split_dataset_type_error)
next
  assume "is_list_or_dict data \<and> \<not> ratios_sum_to_1 L tr vr te"
  then show "split_dataset L data tr vr te s g = (Inl ratio_error, g)"
    by (simp add: split_dataset_ratio_error)
next
  from L ratios_06_02_02 [OF L]
  show "fst (split_dataset L data (rnd L (6 / 10)) (rnd L (2 / 10)) (rnd L (2 / 10)) s g) \<noteq>
      Inl ratio_error"
    by (rule no_ratio_error)
qed

text \<open>Claim C4 on a list of three items.\<close>

theorem ratio_validation_witness:
  "split_dataset demo_lib (JList [JInt 1, JInt 2, JInt 3])
     (rnd demo_lib (5 / 10)) (rnd demo_lib (3 / 10)) (rnd demo_lib (3 / 10)) 42 9 =
     (Inl ratio_error, 9) \<and>
   fst (split_dataset demo_lib (JList [JInt 1, JInt 2, JInt 3])
     (rnd demo_lib (6 / 10)) (rnd demo_lib (2 / 10)) (rnd demo_lib (2 / 10)) 42 9)
     \<noteq> Inl ratio_error"
proof -
  have coll: "is_list_or_dict (JList [JInt 1, JInt 2, JInt 3])" by simp
  from ratio_validation [OF demo_lib_ok, where data = "JList [JInt 1, JInt 2, JInt 3]"
      and s = 42 and g = 9] coll
  show ?thesis by blast
qed

lemma exact_sum:
  assumes L: "lib_ok L" and "representable (tr + vr)" and "tr + vr + te = 1"
  shows "ratios_sum_to_1 L tr vr te"
proof -
  have "fl_add L tr vr = tr + vr" using assms(2) by (simp add: fl_add_def rnd_id [OF L])
  then have "fl_add L (fl_add L tr vr) te = 1" using assms(3) by (simp add: fl_add_def rnd_1 [OF L])
  then have "fl_sub L (fl_add L (fl_add L tr vr) te) 1 = 0" by (simp add: fl_sub_def rnd_0 [OF L])
  then show ?thesis by (simp add: ratios_sum_to_1_def rnd_nonneg [OF L])
qed

lemma representable_1: "representable 1"
  using representable_int [of 1] by simp

lemma representable_3_4: "representable (75 / 100)"
  using representable_dyadic [of 3 2] by simp

lemma n_train_exact:
  assumes "lib_ok L" and "n_items data < 2 ^ 53" and "real (n_items data) * tr = of_int m"
    and "\<bar>m\<bar> < 2 ^ 53"
  shows "n_train L data tr = m"
  using assms by (simp add: n_train_def rounded_product_int [of L _ tr m] trunc_def)

lemma n_val_exact:
  assumes "lib_ok L" and "n_items data < 2 ^ 53" and "real (n_items data) * vr = of_int m"
    and "\<bar>m\<bar> < 2 ^ 53"
  shows "n_val L data vr = m"
  using assms by (simp add: n_val_def rounded_product_int [of L _ vr m] trunc_def)

lemma whole_sample_is_permutation:
  assumes "distinct ti" and "set ti = {0..<length xs}"
  shows "mset (map ((!) xs) ti) = mset xs"
proof -
  have "set ti = set [0..<length xs]"
    using assms(2) by simp
  then have "mset ti = mset [0..<length xs]"
    using set_eq_iff_mset_eq_distinct [OF assms(1) distinct_upt] by blast
  then have "mset (map ((!) xs) ti) = mset (map ((!) xs) [0..<length xs])"
    by (metis mset_map)
  then show ?thesis by (simp add: map_nth)
qed

text \<open>
  Claim C5. On data that is neither a list nor a dict the call raises the type error
  (\<^verbatim>\<open>TypeError("Data must be a list or dictionary")\<close>) before anything else: whatever
  the ratios are, and without touching the generator. The call
  \<^verbatim>\<open>split_dataset([1, 2, 3], 1.0, 0.0, 0.0, 0)\<close> returns: the train subset is a list
  holding the three items (in the order drawn), the val and test subsets are empty
  lists.
\<close>

theorem type_validation:
  "(\<not> is_list_or_dict data \<longrightarrow>
      split_dataset L data tr vr te s g = (Inl data_type_error, g)) \<and>
   (lib_ok L \<longrightarrow>
      (\<exists>r g' xs. split_dataset L (JList [JInt 1, JInt 2, JInt 3]) 1 0 0 0 g = (Inr r, g') \<and>
         train_set r = JList xs \<and> mset xs = mset [JInt 1, JInt 2, JInt 3] \<and>
         val_set r = JList [] \<and> test_set r = JList []))"
proof (intro conjI impI)
  assume "\<not> is_list_or_dict data"
  then show "split_dataset L data tr vr te s g = (Inl data_type_error, g)"
    by (rule split_dataset_type_error)
next
  assume L: "lib_ok L"
  let ?xs = "[JInt 1, JInt 2, JInt 3]"
  let ?data = "JList ?xs"
  have n: "n_items ?data = 3" by (simp add: n_items_def)
  have nt: "n_train L ?data 1 = 3"
    using n_train_exact [OF L, of ?data 1 3] by (simp add: n)
  have nv: "n_val L ?data 0 = 0"
    using n_val_exact [OF L, of ?data 0 0] by (simp add: n)
  have "products_finite L ?data 1 0" using L by (rule products_finiteI) (simp_all add: n)
  then have draws: "draws_possible L ?data 1 0" by (simp add: draws_possible_def nt nv n)
  have sum: "ratios_sum_to_1 L 1 0 0"
    using exact_sum [OF L, of 1 0 0] representable_1 by simp
  from split_dataset_returns [OF L _ _ sum draws, of 0 g]
  obtain ti vi tei g' where run: "split_dataset L ?data 1 0 0 0 g =
             (Inr \<lparr> train_set = subset_at ?data ti, val_set = subset_at ?data vi,
                    test_set = subset_at ?data tei,
                    indices = \<lparr> train_indices = ti, val_indices = vi, test_indices = tei \<rparr> \<rparr>, g')"
    and len: "length vi = nat (n_val L ?data 0)"
      "length tei = n_items ?data - nat (n_train L ?data 1) - nat (n_val L ?data 0)"
    and dist: "distinct ti"
    and un: "set ti \<union> set vi \<union> set tei = {0..<n_items ?data}"
    by auto
  from len have e: "vi = []" "tei = []" by (simp_all add: nt nv n)
  with un have "set ti = {0..<n_items ?data}" by simp
  then have "set ti = {0..<length ?xs}"
    by (simp only: n_items_def items_of.simps length_map)
  with dist have "mset (map ((!) ?xs) ti) = mset ?xs" by (rule whole_sample_is_permutation)
  with run e show "\<exists>r g' xs. split_dataset L ?data 1 0 0 0 g = (Inr r, g') \<and>
         train_set r = JList xs \<and> mset xs = mset ?xs \<and>
         val_set r = JList [] \<and> test_set r = JList []"
    by simp
qed

text \<open>Claim C5 on a string, on a number with ratios that do not sum to 1, and on the list.\<close>

theorem type_validation_witness:
  "split_dataset demo_lib (JStr ''not a collection'') (6 / 10) (2 / 10) (2 / 10) 42 9 =
     (Inl data_type_error, 9) \<and>
   split_dataset demo_lib (JInt 5) (5 / 10) (3 / 10) (3 / 10) 42 9 = (Inl data_type_error, 9) \<and>
   (\<exists>r g' xs. split_dataset demo_lib (JList [JInt 1, JInt 2, JInt 3]) 1 0 0 0 9 = (Inr r, g') \<and>
         train_set r = JList xs \<and> mset xs = mset [JInt 1, JInt 2, JInt 3] \<and>
         val_set r = JList [] \<and> test_set r = JList [])"
proof -
  have a: "\<not> is_list_or_dict (JStr ''not a collection'')" and b: "\<not> is_list_or_dict (JInt 5)"
    by simp_all
  from type_validation [of "JStr ''not a collection''" demo_lib "6 / 10" "2 / 10" "2 / 10" 42 9] a
  have 1: "split_dataset demo_lib (JStr ''not a collection'') (6 / 10) (2 / 10) (2 / 10) 42 9 =
     (Inl data_type_error, 9)" by blast
  from type_validation [of "JInt 5" demo_lib "5 / 10" "3 / 10" "3 / 10" 42 9] b
  have 2: "split_dataset demo_lib (JInt 5) (5 / 10) (3 / 10) (3 / 10) 42 9 = (Inl data_type_error, 9)"
    by blast
  from type_validation [of JNull demo_lib 0 0 0 0 9] demo_lib_ok
  have 3: "\<exists>r g' xs. split_dataset demo_lib (JList [JInt 1, JInt 2, JInt 3]) 1 0 0 0 9 = (Inr r, g') \<and>
         train_set r = JList xs \<and> mset xs = mset [JInt 1, JInt 2, JInt 3] \<and>
         val_set r = JList [] \<and> test_set r = JList []" by blast
  from 1 2 3 show ?thesis by blast
qed


lemma keys_subset_at:
  "keys (subset_at (JDict kvs) idx) = (\<lambda>i. fst (kvs ! i)) ` set idx"
  by (simp add: image_image)

lemma inj_on_keys:
  assumes "distinct (map fst kvs)"
  shows "inj_on (\<lambda>i. fst (kvs ! i)) {0..<length kvs}"
proof (rule inj_onI)
  fix i j
  assume "i \<in> {0..<length kvs}" "j \<in> {0..<length kvs}" and eq: "fst (kvs ! i) = fst (kvs ! j)"
  then have lt: "i < length (map fst kvs)" "j < length (map fst kvs)" by simp_all
  from eq lt have "map fst kvs ! i = map fst kvs ! j" by simp
  then show "i = j" using nth_eq_iff_index_eq [OF assms lt] by blast
qed

lemma image_nth_upt: "(!) xs ` {0..<length xs} = set xs"
proof -
  have "(!) xs ` {0..<length xs} = set (map ((!) xs) [0..<length xs])" by simp
  then show ?thesis by (simp only: map_nth)
qed

lemma keys_partition:
  assumes d: "distinct (map fst kvs)"
    and disj: "set ti \<inter> set vi = {}" "set ti \<inter> set tei = {}" "set vi \<inter> set tei = {}"
    and un: "set ti \<union> set vi \<union> set tei = {0..<length kvs}"
  shows "keys (subset_at (JDict kvs) ti) \<inter> keys (subset_at (JDict kvs) vi) = {}"
    and "keys (subset_at (JDict kvs) ti) \<inter> keys (subset_at (JDict kvs) tei) = {}"
    and "keys (subset_at (JDict kvs) vi) \<inter> keys (subset_at (JDict kvs) tei) = {}"
    and "keys (subset_at (JDict kvs) ti) \<union> keys (subset_at (JDict kvs) vi) \<union>
           keys (subset_at (JDict kvs) tei) = keys (JDict kvs)"
proof -
  let ?f = "\<lambda>i. fst (kvs ! i)"
  note inj = inj_on_keys [OF d]
  from un have sub: "set ti \<subseteq> {0..<length kvs}" "set vi \<subseteq> {0..<length kvs}"
    "set tei \<subseteq> {0..<length kvs}" by auto
  have "?f ` set ti \<inter> ?f ` set vi = ?f ` (set ti \<inter> set vi)"
    using inj_on_image_Int [OF inj sub(1) sub(2)] by simp
  then show "keys (subset_at (JDict kvs) ti) \<inter> keys (subset_at (JDict kvs) vi) = {}"
    by (simp only: keys_subset_at disj image_empty)
  have "?f ` set ti \<inter> ?f ` set tei = ?f ` (set ti \<inter> set tei)"
    using inj_on_image_Int [OF inj sub(1) sub(3)] by simp
  then show "keys (subset_at (JDict kvs) ti) \<inter> keys (subset_at (JDict kvs) tei) = {}"
    by (simp only: keys_subset_at disj image_empty)
  have "?f ` set vi \<inter> ?f ` set tei = ?f ` (set vi \<inter> set tei)"
    using inj_on_image_Int [OF inj sub(2) sub(3)] by simp
  then show "keys (subset_at (JDict kvs) vi) \<inter> keys (subset_at (JDict kvs) tei) = {}"
    by (simp only: keys_subset_at disj image_empty)
  have "?f ` set ti \<union> ?f ` set vi \<union> ?f ` set tei = ?f ` {0..<length kvs}"
    by (simp only: un [symmetric] image_Un)
  also have "\<dots> = fst ` ((!) kvs ` {0..<length kvs})" by (simp only: image_image)
  also have "\<dots> = fst ` set kvs" by (simp only: image_nth_upt)
  finally show "keys (subset_at (JDict kvs) ti) \<union> keys (subset_at (JDict kvs) vi) \<union>
           keys (subset_at (JDict kvs) tei) = keys (JDict kvs)"
    by (simp only: keys_subset_at keys.simps)
qed

lemma entries_union:
  assumes un: "set ti \<union> set vi \<union> set tei = {0..<length kvs}"
  shows "set (map ((!) kvs) ti) \<union> set (map ((!) kvs) vi) \<union> set (map ((!) kvs) tei) = set kvs"
proof -
  have "set (map ((!) kvs) ti) \<union> set (map ((!) kvs) vi) \<union> set (map ((!) kvs) tei) =
      (!) kvs ` (set ti \<union> set vi \<union> set tei)"
    by (simp add: image_Un)
  then show ?thesis by (simp only: un image_nth_upt)
qed

text \<open>
  Claim C6. When the input is a dict (distinct keys) and the call returns, the three
  subsets are dicts, their key sets are pairwise disjoint and together are the key set
  of the input, and their entries together are the entries of the input. For a dict of
  four keys and the ratios 0.75, 0, 0.25 the call returns, with three keys in the train
  subset, none in the val subset and one in the test subset.
\<close>

theorem mapping_round_trip:
  assumes L: "lib_ok L" and d: "distinct (map fst kvs)"
  shows "(\<forall>r g'. split_dataset L (JDict kvs) tr vr te s g = (Inr r, g') \<longrightarrow>
            (\<exists>a b c. train_set r = JDict a \<and> val_set r = JDict b \<and> test_set r = JDict c \<and>
               set a \<union> set b \<union> set c = set kvs) \<and>
            keys (train_set r) \<inter> keys (val_set r) = {} \<and>
            keys (train_set r) \<inter> keys (test_set r) = {} \<and>
            keys (val_set r) \<inter> keys (test_set r) = {} \<and>
            keys (train_set r) \<union> keys (val_set r) \<union> keys (test_set r) = keys (JDict kvs)) \<and>
         (length kvs = 4 \<longrightarrow>
            (\<exists>r g' a b c. split_dataset L (JDict kvs) (75 / 100) 0 (25 / 100) s g = (Inr r, g') \<and>
               train_set r = JDict a \<and> val_set r = JDict b \<and> test_set r = JDict c \<and>
               length a = 3 \<and> length b = 0 \<and> length c = 1 \<and>
               distinct (map fst a) \<and> distinct (map fst c)))"
proof (intro conjI allI impI)
  fix r g'
  assume run: "split_dataset L (JDict kvs) tr vr te s g = (Inr r, g')"
  note D = split_dataset_Inr_D [OF L run]
  have wf: "wf_dict (JDict kvs)" using d by simp
  from split_dataset_returns [OF L D(1) wf D(2) D(3), of s g]
  obtain ti vi tei g'' where run': "split_dataset L (JDict kvs) tr vr te s g =
             (Inr \<lparr> train_set = subset_at (JDict kvs) ti, val_set = subset_at (JDict kvs) vi,
                    test_set = subset_at (JDict kvs) tei,
                    indices = \<lparr> train_indices = ti, val_indices = vi, test_indices = tei \<rparr> \<rparr>, g'')"
    and disj: "set ti \<inter> set vi = {}" "set ti \<inter> set tei = {}" "set vi \<inter> set tei = {}"
    and un: "set ti \<union> set vi \<union> set tei = {0..<n_items (JDict kvs)}"
    by blast
  from un have un': "set ti \<union> set vi \<union> set tei = {0..<length kvs}" by (simp add: n_items_def)
  from run run' have r: "train_set r = subset_at (JDict kvs) ti"
    "val_set r = subset_at (JDict kvs) vi" "test_set r = subset_at (JDict kvs) tei"
    by auto
  show "\<exists>a b c. train_set r = JDict a \<and> val_set r = JDict b \<and> test_set r = JDict c \<and>
               set a \<union> set b \<union> set c = set kvs"
    using entries_union [OF un'] by (simp add: r)
  show "keys (train_set r) \<inter> keys (val_set r) = {}"
    unfolding r by (rule keys_partition [OF d disj un'])
  show "keys (train_set r) \<inter> keys (test_set r) = {}"
    unfolding r by (rule keys_partition [OF d disj un'])
  show "keys (val_set r) \<inter> keys (test_set r) = {}"
    unfolding r by (rule keys_partition [OF d disj un'])
  show "keys (train_set r) \<union> keys (val_set r) \<union> keys (test_set r) = keys (JDict kvs)"
    unfolding r by (rule keys_partition [OF d disj un'])
next
  assume len: "length kvs = 4"
  let ?data = "JDict kvs"
  have wf: "wf_dict ?data" using d by simp
  have n: "n_items ?data = 4" by (simp add: n_items_def len)
  have nt: "n_train L ?data (75 / 100) = 3"
    using n_train_exact [OF L, of ?data "75 / 100" 3] by (simp add: n)
  have nv: "n_val L ?data 0 = 0"
    using n_val_exact [OF L, of ?data 0 0] by (simp add: n)
  have "products_finite L ?data (75 / 100) 0"
    using L by (rule products_finiteI) (simp_all add: n)
  then have draws: "draws_possible L ?data (75 / 100) 0"
    unfolding draws_possible_def nt nv n by simp
  have sum: "ratios_sum_to_1 L (75 / 100) 0 (25 / 100)"
    using exact_sum [OF L, of "75 / 100" 0 "25 / 100"] representable_3_4 by simp
  from split_dataset_returns [OF L _ wf sum draws, of s g]
  obtain ti vi tei g' where run: "split_dataset L ?data (75 / 100) 0 (25 / 100) s g =
             (Inr \<lparr> train_set = subset_at ?data ti, val_set = subset_at ?data vi,
                    test_set = subset_at ?data tei,
                    indices = \<lparr> train_indices = ti, val_indices = vi, test_indices = tei \<rparr> \<rparr>, g')"
    and l: "length ti = nat (n_train L ?data (75 / 100))" "length vi = nat (n_val L ?data 0)"
      "length tei = n_items ?data - nat (n_train L ?data (75 / 100)) - nat (n_val L ?data 0)"
    and dist: "distinct ti" "distinct tei"
    and un: "set ti \<union> set vi \<union> set tei = {0..<n_items ?data}"
    by auto
  from un have rng: "\<forall>i\<in>set ti. i < length kvs" "\<forall>i\<in>set tei. i < length kvs"
    by (auto simp: n_items_def)
  have "distinct (map fst (map ((!) kvs) ti))" "distinct (map fst (map ((!) kvs) tei))"
    using d dist rng by (simp_all only: distinct_keys_picked)
  with run l show "\<exists>r g' a b c. split_dataset L ?data (75 / 100) 0 (25 / 100) s g = (Inr r, g') \<and>
               train_set r = JDict a \<and> val_set r = JDict b \<and> test_set r = JDict c \<and>
               length a = 3 \<and> length b = 0 \<and> length c = 1 \<and>
               distinct (map fst a) \<and> distinct (map fst c)"
    unfolding nt nv n by simp
qed


text \<open>Claim C6 on the dict with the keys a, b, c, d and the seed 1.\<close>

theorem mapping_round_trip_witness:
  "\<exists>r g' a b c.
     split_dataset demo_lib
       (JDict [(''a'', JInt 1), (''b'', JInt 2), (''c'', JInt 3), (''d'', JInt 4)])
       (75 / 100) 0 (25 / 100) 1 0 = (Inr r, g') \<and>
     train_set r = JDict a \<and> val_set r = JDict b \<and> test_set r = JDict c \<and>
     length a = 3 \<and> length b = 0 \<and> length c = 1 \<and>
     keys (train_set r) \<inter> keys (val_set r) = {} \<and>
     keys (train_set r) \<inter> keys (test_set r) = {} \<and>
     keys (val_set r) \<inter> keys (test_set r) = {} \<and>
     keys (train_set r) \<union> keys (val_set r) \<union> keys (test_set r) =
       {''a'', ''b'', ''c'', ''d''}"
proof -
  let ?kvs = "[(''a'', JInt 1), (''b'', JInt 2), (''c'', JInt 3), (''d'', JInt 4)]"
  have d: "distinct (map fst ?kvs)" by simp
  have len: "length ?kvs = 4" by simp
  have k: "keys (JDict ?kvs) = {''a'', ''b'', ''c'', ''d''}" by simp
  note rt = mapping_round_trip [OF demo_lib_ok d, of "75 / 100" 0 "25 / 100" 1 0]
  from rt len obtain r g' a b c where
    run: "split_dataset demo_lib (JDict ?kvs) (75 / 100) 0 (25 / 100) 1 0 = (Inr r, g')"
    and shape: "train_set r = JDict a" "val_set r = JDict b" "test_set r = JDict c"
      "length a = 3" "length b = 0" "length c = 1"
    by blast
  from rt run have "keys (train_set r) \<inter> keys (val_set r) = {}"
    "keys (train_set r) \<inter> keys (test_set r) = {}"
    "keys (val_set r) \<inter> keys (test_set r) = {}"
    "keys (train_set r) \<union> keys (val_set r) \<union> keys (test_set r) = keys (JDict ?kvs)"
    by blast+
  with run shape show ?thesis unfolding k by blast
qed


lemma draws_possible_no_val:
  assumes L: "lib_ok L" and "0 \<le> tr" and "tr \<le> 1" and small: "n_items data < 2 ^ 53"
  shows "draws_possible L data tr 0"
proof -
  define n where "n = real (n_items data)"
  have n0: "0 \<le> n" by (simp add: n_def)
  have rn: "rnd L n = n" unfolding n_def using L small by (rule rnd_nat)
  have p0: "0 \<le> rounded_product L (n_items data) tr"
    using L assms(2) by (rule rounded_product_nonneg)
  have "n * tr \<le> n * 1" using assms(3) n0 by (rule mult_left_mono)
  then have "rnd L (n * tr) \<le> rnd L n" using rnd_mono [OF L, of "n * tr" n] by simp
  then have p1: "rounded_product L (n_items data) tr \<le> n"
    by (simp add: rounded_product_def n_def [symmetric] rn)
  from p1 have "\<lfloor>rounded_product L (n_items data) tr\<rfloor> \<le> \<lfloor>n\<rfloor>" by (rule floor_mono)
  then have le: "\<lfloor>rounded_product L (n_items data) tr\<rfloor> \<le> int (n_items data)"
    by (simp add: n_def)
  from p0 have f0: "0 \<le> \<lfloor>rounded_product L (n_items data) tr\<rfloor>" by simp
  have nt: "n_train L data tr = \<lfloor>rounded_product L (n_items data) tr\<rfloor>"
    using p0 by (simp add: n_train_def trunc_def)
  have nv: "n_val L data 0 = 0"
    by (simp add: n_val_def rounded_product_zero [OF L] trunc_def)
  have "products_finite L data tr 0"
    using L small assms(2,3) by (intro products_finiteI) simp_all
  then show ?thesis
    unfolding draws_possible_def nt nv using le f0 by simp
qed

lemma empty_data:
  assumes "is_list_or_dict data" and "n_items data = 0"
  shows "subset_at data [] = data" and "lib_ok L \<Longrightarrow> draws_possible L data tr vr"
proof -
  show "subset_at data [] = data"
    using assms by (cases data) (simp_all add: n_items_def)
  show "draws_possible L data tr vr" if "lib_ok L"
    using assms(2) that
    by (simp add: draws_possible_def n_train_def n_val_def rounded_product_0 trunc_def
        products_finite_def int_times_float_Infinity rnd_0 overflows_def)
qed

text \<open>
  Claim C9. With \<^verbatim>\<open>val_ratio = 0\<close>, a train ratio between 0 and 1 and ratios that pass
  the ratio check, the call returns (on data of fewer than \<open>2\<^sup>5\<^sup>3\<close> items, whose number
  is a float), the val index list is empty and the val subset is an empty list or
  dict. On empty data the call returns whenever the ratios pass the check, with three
  empty subsets and three empty index lists; when they do not, it raises the ratio
  error as on any other data.
\<close>

theorem split_dataset_edge_cases:
  assumes L: "lib_ok L" and coll: "is_list_or_dict data" and wf: "wf_dict data"
  shows "(0 \<le> tr \<and> tr \<le> 1 \<and> ratios_sum_to_1 L tr 0 te \<and> n_items data < 2 ^ 53 \<longrightarrow>
            (\<exists>r g'. split_dataset L data tr 0 te s g = (Inr r, g') \<and>
               val_indices (indices r) = [] \<and> py_len (val_set r) = Inr 0 \<and>
               (val_set r = JList [] \<or> val_set r = JDict []))) \<and>
         (n_items data = 0 \<and> ratios_sum_to_1 L tr vr te \<longrightarrow>
            (\<exists>g'. split_dataset L data tr vr te s g =
               (Inr \<lparr> train_set = data, val_set = data, test_set = data,
                      indices = \<lparr> train_indices = [], val_indices = [],
                                  test_indices = [] \<rparr> \<rparr>, g')) \<and>
            (data = JList [] \<or> data = JDict [])) \<and>
         (n_items data = 0 \<and> \<not> ratios_sum_to_1 L tr vr te \<longrightarrow>
            split_dataset L data tr vr te s g = (Inl ratio_error, g))"
proof (intro conjI impI)
  assume h: "0 \<le> tr \<and> tr \<le> 1 \<and> ratios_sum_to_1 L tr 0 te \<and> n_items data < 2 ^ 53"
  then have draws: "draws_possible L data tr 0" using draws_possible_no_val [OF L] by blast
  from h have sum: "ratios_sum_to_1 L tr 0 te" by simp
  from split_dataset_returns [OF L coll wf sum draws, of s g]
  obtain ti vi tei g' where run: "split_dataset L data tr 0 te s g =
             (Inr \<lparr> train_set = subset_at data ti, val_set = subset_at data vi,
                    test_set = subset_at data tei,
                    indices = \<lparr> train_indices = ti, val_indices = vi, test_indices = tei \<rparr> \<rparr>, g')"
    and l: "length vi = nat (n_val L data 0)"
    by auto
  from l have vi: "vi = []"
    by (simp add: n_val_def rounded_product_zero [OF L] trunc_def)
  have "subset_at data [] = JList [] \<or> subset_at data [] = JDict []"
    using coll by (cases data) simp_all
  with run vi coll show "\<exists>r g'. split_dataset L data tr 0 te s g = (Inr r, g') \<and>
               val_indices (indices r) = [] \<and> py_len (val_set r) = Inr 0 \<and>
               (val_set r = JList [] \<or> val_set r = JDict [])"
    by (auto simp: py_len_subset_at)
next
  assume h: "n_items data = 0 \<and> ratios_sum_to_1 L tr vr te"
  then have n: "n_items data = 0" and sum: "ratios_sum_to_1 L tr vr te" by simp_all
  note e = empty_data [OF coll n]
  from split_dataset_returns [OF L coll wf sum e(2) [OF L], of s g]
  obtain ti vi tei g' where run: "split_dataset L data tr vr te s g =
             (Inr \<lparr> train_set = subset_at data ti, val_set = subset_at data vi,
                    test_set = subset_at data tei,
                    indices = \<lparr> train_indices = ti, val_indices = vi, test_indices = tei \<rparr> \<rparr>, g')"
    and un: "set ti \<union> set vi \<union> set tei = {0..<n_items data}"
    by auto
  from un n have "ti = []" "vi = []" "tei = []" by simp_all
  with run e(1) show "\<exists>g'. split_dataset L data tr vr te s g =
               (Inr \<lparr> train_set = data, val_set = data, test_set = data,
                      indices = \<lparr> train_indices = [], val_indices = [],
                                  test_indices = [] \<rparr> \<rparr>, g')"
    by simp
  show "data = JList [] \<or> data = JDict []"
    using coll n by (cases data) (simp_all add: n_items_def)
next
  assume "n_items data = 0 \<and> \<not> ratios_sum_to_1 L tr vr te"
  with coll show "split_dataset L data tr vr te s g = (Inl ratio_error, g)"
    by (simp add: split_dataset_ratio_error)
qed

text \<open>
  Claim C9 on a list of five items with the default ratios 0.96, 0.0, 0.04, on an empty
  dict, and on an empty list with ratios that sum to 1.1.
\<close>

theorem split_dataset_edge_cases_witness:
  "(\<exists>r g'. split_dataset demo_lib (JList [JInt 1, JInt 2, JInt 3, JInt 4, JInt 5])
              (96 / 100) 0 (4 / 100) 42 0 = (Inr r, g') \<and>
      val_indices (indices r) = [] \<and> py_len (val_set r) = Inr 0 \<and>
      (val_set r = JList [] \<or> val_set r = JDict [])) \<and>
   (\<exists>g'. split_dataset demo_lib (JDict []) (6 / 10) (2 / 10) (2 / 10) 42 0 =
      (Inr \<lparr> train_set = JDict [], val_set = JDict [], test_set = JDict [],
             indices = \<lparr> train_indices = [], val_indices = [], test_indices = [] \<rparr> \<rparr>, g')) \<and>
   split_dataset demo_lib (JList []) (5 / 10) (3 / 10) (3 / 10) 42 0 = (Inl ratio_error, 0)"
proof -
  let ?data = "JList [JInt 1, JInt 2, JInt 3, JInt 4, JInt 5]"
  have "ratios_sum_to_1 demo_lib (96 / 100) 0 (4 / 100)" by code_simp
  then have a: "(0::real) \<le> 96 / 100 \<and> (96::real) / 100 \<le> 1 \<and>
      ratios_sum_to_1 demo_lib (96 / 100) 0 (4 / 100) \<and> n_items ?data < 2 ^ 53"
    by (simp add: n_items_def)
  have b: "n_items (JDict []) = 0 \<and> ratios_sum_to_1 demo_lib (6 / 10) (2 / 10) (2 / 10)"
    by code_simp
  have c: "n_items (JList []) = 0 \<and> \<not> ratios_sum_to_1 demo_lib (5 / 10) (3 / 10) (3 / 10)"
    by code_simp
  from split_dataset_edge_cases [OF demo_lib_ok, where data = ?data and tr = "96 / 100"
      and te = "4 / 100" and s = 42 and g = 0] a
  have 1: "\<exists>r g'. split_dataset demo_lib ?data (96 / 100) 0 (4 / 100) 42 0 = (Inr r, g') \<and>
      val_indices (indices r) = [] \<and> py_len (val_set r) = Inr 0 \<and>
      (val_set r = JList [] \<or> val_set r = JDict [])"
    by simp
  from split_dataset_edge_cases [OF demo_lib_ok, where data = "JDict []" and tr = "6 / 10"
      and vr = "2 / 10" and te = "2 / 10" and s = 42 and g = 0] b
  have 2: "\<exists>g'. split_dataset demo_lib (JDict []) (6 / 10) (2 / 10) (2 / 10) 42 0 =
      (Inr \<lparr> train_set = JDict [], val_set = JDict [], test_set = JDict [],
             indices = \<lparr> train_indices = [], val_indices = [], test_indices = [] \<rparr> \<rparr>, g')"
    by simp
  from split_dataset_edge_cases [OF demo_lib_ok, where data = "JList []" and tr = "5 / 10"
      and vr = "3 / 10" and te = "3 / 10" and s = 42 and g = 0] c
  have 3: "split_dataset demo_lib (JList []) (5 / 10) (3 / 10) (3 / 10) 42 0 = (Inl ratio_error, 0)"
    by simp
  from 1 2 3 show ?thesis by blast
qed

lemma representable_3_2: "representable (3 / 2)" and representable_m1_2: "representable (- 1 / 2)"
  using representable_dyadic [of 3 1] representable_dyadic [of "- 1" 1] by simp_all

lemma draws_possible_negative_example:
  assumes L: "lib_ok L" and small: "n_items data < 2 ^ 52"
  shows "draws_possible L data (3 / 2) (- 1 / 2) \<longleftrightarrow> n_items data \<le> 1"
proof (cases "n_items data \<le> 1")
  case True
  have fin: "products_finite L data (3 / 2) (- 1 / 2)"
    using L small by (intro products_finiteI) simp_all
  from True consider "n_items data = 0" | "n_items data = 1" by linarith
  then have "draws_possible L data (3 / 2) (- 1 / 2)"
  proof cases
    case 1
    then show ?thesis using fin
      by (simp add: draws_possible_def n_train_def n_val_def rounded_product_0 [OF L] trunc_def)
  next
    case 2
    have e: "rounded_product L 1 (3 / 2) = 3 / 2" "rounded_product L 1 (- 1 / 2) = - 1 / 2"
      using representable_3_2 representable_m1_2
      by (simp_all add: rounded_product_def rnd_1 [OF L] rnd_id [OF L])
    have nt: "n_train L data (3 / 2) = 1"
      unfolding n_train_def 2 e trunc_def by simp
    have nv: "n_val L data (- 1 / 2) = 0"
      unfolding n_val_def 2 e trunc_def by (simp add: ceiling_eq_iff)
    show ?thesis
      unfolding draws_possible_def nt nv 2 using fin by simp
  qed
  with True show ?thesis by simp
next
  case False
  define n where "n = n_items data"
  from False have n2: "2 \<le> n" by (simp add: n_def)
  from small have "n < 2 ^ 53" "n + 1 < 2 ^ 53" by (simp_all add: n_def)
  then have rn: "rnd L (real n) = real n" "rnd L (real (n + 1)) = real (n + 1)"
    using rnd_nat [OF L] by blast+
  from n2 have "real (n + 1) \<le> real n * (3 / 2)" by simp
  from rnd_mono [OF L this] have m: "rnd L (real (n + 1)) \<le> rnd L (real n * (3 / 2))" .
  have "real (n + 1) \<le> rounded_product L n (3 / 2)"
    unfolding rounded_product_def rn(1) using m unfolding rn(2) .
  then have "of_int (int n + 1) \<le> rounded_product L n (3 / 2)" by simp
  then have fl: "int n + 1 \<le> \<lfloor>rounded_product L n (3 / 2)\<rfloor>"
    by (rule le_floor_iff [THEN iffD2])
  then have "0 \<le> rounded_product L n (3 / 2)" by linarith
  then have "trunc (rounded_product L n (3 / 2)) = \<lfloor>rounded_product L n (3 / 2)\<rfloor>"
    by (simp add: trunc_def)
  with fl have "\<not> n_train L data (3 / 2) \<le> int (n_items data)"
    unfolding n_train_def n_def [symmetric] by linarith
  then have "\<not> draws_possible L data (3 / 2) (- 1 / 2)" by (simp add: draws_possible_def)
  with False show ?thesis by simp
qed

lemma ratios_negative_example:
  "lib_ok L \<Longrightarrow> ratios_sum_to_1 L (3 / 2) (- 1 / 2) 0"
  using exact_sum [of L "3 / 2" "- 1 / 2" 0] representable_1 by simp

lemma ratios_overflow_example:
  assumes L: "lib_ok L"
  shows "ratios_sum_to_1 L (2 ^ 1023) (- (2 ^ 1023)) 1"
proof (rule exact_sum [OF L])
  show "representable (2 ^ 1023 + - (2 ^ 1023))"
    using representable_int [of 0] by simp
  show "2 ^ 1023 + - (2 ^ 1023) + 1 = (1::real)" by simp
qed

lemma product_overflow_example:
  assumes L: "lib_ok L" and n2: "2 \<le> n_items data" and small: "n_items data < 2 ^ 53"
  shows "\<not> products_finite L data (2 ^ 1023) (- (2 ^ 1023))"
proof -
  define n where "n = real (n_items data)"
  have rn: "rnd L (real (n_items data)) = n" unfolding n_def using L small by (rule rnd_nat)
  have "real 2 \<le> real (n_items data)" using n2 by (rule iffD2 [OF of_nat_le_iff])
  then have "2 \<le> n" by (simp add: n_def)
  then have "2 * 2 ^ 1023 \<le> n * 2 ^ 1023" by (rule mult_right_mono) simp
  moreover have "real_of_int (2 ^ 1024 - 2 ^ 970) \<le> 2 * 2 ^ 1023" by simp
  ultimately have "real_of_int (2 ^ 1024 - 2 ^ 970) \<le> n * 2 ^ 1023"
    by (rule order_trans [rotated])
  also have "n * 2 ^ 1023 \<le> \<bar>n * 2 ^ 1023\<bar>" by (rule abs_ge_self)
  finally have "overflows (n * 2 ^ 1023)" unfolding overflows_def .
  then have "int_times_float L (n_items data) (2 ^ 1023) = Infinity"
    unfolding int_times_float_Infinity rn .
  then show ?thesis by (simp add: products_finite_def)
qed

text \<open>
  Claim C10, as amended. The ratio check tests only the sum: whenever the ratios pass
  it, negative ones included, no ratio error is raised. Such a call then raises
  \<^verbatim>\<open>OverflowError\<close> exactly when one of the products \<^verbatim>\<open>total_size * ratio\<close> is infinite,
  raises the \<^verbatim>\<open>ValueError\<close> of \<^verbatim>\<open>random.sample\<close> exactly when the products are finite
  and a draw is impossible (a sample size negative or larger than its population), and
  returns otherwise. The ratios 1.5, -0.5, 0.0 pass the check; with them the call
  raises the error of \<^verbatim>\<open>random.sample\<close> on data of two or more items (fewer than
  \<open>2\<^sup>5\<^sup>2\<close>, so that the number of items is a float) and returns on data of one item or
  none. The ratios \<open>2\<^sup>1\<^sup>0\<^sup>2\<^sup>3\<close>, \<open>-2\<^sup>1\<^sup>0\<^sup>2\<^sup>3\<close>, 1.0 pass the check as well; with them the call
  raises \<^verbatim>\<open>OverflowError\<close> on data of two or more items.
\<close>

theorem ratio_check_only_sum:
  assumes L: "lib_ok L" and coll: "is_list_or_dict data" and sum: "ratios_sum_to_1 L tr vr te"
  shows "fst (split_dataset L data tr vr te s g) \<noteq> Inl ratio_error \<and>
         (fst (split_dataset L data tr vr te s g) = Inl overflow_error \<longleftrightarrow>
            \<not> products_finite L data tr vr) \<and>
         (fst (split_dataset L data tr vr te s g) = Inl sample_error \<longleftrightarrow>
            products_finite L data tr vr \<and> \<not> draws_possible L data tr vr) \<and>
         (draws_possible L data tr vr \<longrightarrow>
            (\<exists>r g'. split_dataset L data tr vr te s g = (Inr r, g'))) \<and>
         ratios_sum_to_1 L (3 / 2) (- 1 / 2) 0 \<and>
         (2 \<le> n_items data \<and> n_items data < 2 ^ 52 \<longrightarrow>
            fst (split_dataset L data (3 / 2) (- 1 / 2) 0 s g) = Inl sample_error) \<and>
         (n_items data \<le> 1 \<longrightarrow>
            (\<exists>r g'. split_dataset L data (3 / 2) (- 1 / 2) 0 s g = (Inr r, g'))) \<and>
         ratios_sum_to_1 L (2 ^ 1023) (- (2 ^ 1023)) 1 \<and>
         (2 \<le> n_items data \<and> n_items data < 2 ^ 53 \<longrightarrow>
            fst (split_dataset L data (2 ^ 1023) (- (2 ^ 1023)) 1 s g) = Inl overflow_error)"
proof (intro conjI impI)
  show "fst (split_dataset L data tr vr te s g) \<noteq> Inl ratio_error"
    using L sum by (rule no_ratio_error)
  consider (returns) "draws_possible L data tr vr"
    | (sample) "products_finite L data tr vr" "\<not> draws_possible L data tr vr"
    | (overflow) "\<not> products_finite L data tr vr"
    by blast
  then have outcome: "(fst (split_dataset L data tr vr te s g) = Inl overflow_error \<longleftrightarrow>
            \<not> products_finite L data tr vr) \<and>
         (fst (split_dataset L data tr vr te s g) = Inl sample_error \<longleftrightarrow>
            products_finite L data tr vr \<and> \<not> draws_possible L data tr vr)"
  proof cases
    case returns
    then have "products_finite L data tr vr" by (simp add: draws_possible_def)
    with split_dataset_draws [OF L coll sum returns, of s g] returns show ?thesis by auto
  next
    case sample
    from split_dataset_raises [OF L coll sum sample, of s g] sample errors_differ
    show ?thesis by simp
  next
    case overflow
    then have "\<not> draws_possible L data tr vr" by (simp add: draws_possible_def)
    with split_dataset_overflows [OF coll sum overflow, of s g] overflow errors_differ
    show ?thesis by simp
  qed
  from outcome show "fst (split_dataset L data tr vr te s g) = Inl overflow_error \<longleftrightarrow>
            \<not> products_finite L data tr vr" by (rule conjunct1)
  from outcome show "fst (split_dataset L data tr vr te s g) = Inl sample_error \<longleftrightarrow>
            products_finite L data tr vr \<and> \<not> draws_possible L data tr vr" by (rule conjunct2)
  show ex: "ratios_sum_to_1 L (3 / 2) (- 1 / 2) 0"
    using L by (rule ratios_negative_example)
  show ex': "ratios_sum_to_1 L (2 ^ 1023) (- (2 ^ 1023)) 1"
    using L by (rule ratios_overflow_example)
  {
    assume h: "2 \<le> n_items data \<and> n_items data < 2 ^ 52"
    then have "\<not> n_items data \<le> 1" by linarith
    then have no: "\<not> draws_possible L data (3 / 2) (- 1 / 2)"
      using draws_possible_negative_example [OF L, of data] h by blast
    have "n_items data < 2 ^ 53" using h by simp
    with L have "products_finite L data (3 / 2) (- 1 / 2)" by (rule products_finiteI) simp_all
    with L coll ex show "fst (split_dataset L data (3 / 2) (- 1 / 2) 0 s g) = Inl sample_error"
      using no by (rule split_dataset_raises)
  }
  {
    assume h: "n_items data \<le> 1"
    then have "n_items data < 2 ^ 52" by (simp add: less_le_trans [of _ 2])
    with h have "draws_possible L data (3 / 2) (- 1 / 2)"
      using draws_possible_negative_example [OF L, of data] by blast
    from split_dataset_draws [OF L coll ex this, of s g]
    show "\<exists>r g'. split_dataset L data (3 / 2) (- 1 / 2) 0 s g = (Inr r, g')" by blast
  }
  {
    assume h: "2 \<le> n_items data \<and> n_items data < 2 ^ 53"
    then have "\<not> products_finite L data (2 ^ 1023) (- (2 ^ 1023))"
      using product_overflow_example [OF L] by blast
    with coll ex' have "split_dataset L data (2 ^ 1023) (- (2 ^ 1023)) 1 s g =
        (Inl overflow_error, seed L s)"
      by (rule split_dataset_overflows)
    then show "fst (split_dataset L data (2 ^ 1023) (- (2 ^ 1023)) 1 s g) = Inl overflow_error"
      by simp
  }
next
  assume "draws_possible L data tr vr"
  from split_dataset_draws [OF L coll sum this, of s g]
  show "\<exists>r g'. split_dataset L data tr vr te s g = (Inr r, g')" by blast
qed

text \<open>
  Claim C10 as stated fails: the ratios 1.5, -0.5, 0.0 on a list of one item give
  \<^verbatim>\<open>int(1.5) = 1\<close> and \<^verbatim>\<open>int(-0.5) = 0\<close>, both draws succeed and the call returns.
\<close>

theorem negative_ratio_one_item_returns:
  "ratios_sum_to_1 demo_lib (3 / 2) (- 1 / 2) 0 \<and> py_len (JList [JInt 7]) = Inr 1 \<and>
   split_dataset demo_lib (JList [JInt 7]) (3 / 2) (- 1 / 2) 0 42 0 =
     (Inr \<lparr> train_set = JList [JInt 7], val_set = JList [], test_set = JList [],
            indices = \<lparr> train_indices = [0], val_indices = [], test_indices = [] \<rparr> \<rparr>, 44)"
  by code_simp

text \<open>Claim C10 on a list of two items.\<close>

theorem ratio_check_only_sum_witness:
  "fst (split_dataset demo_lib (JList [JInt 1, JInt 2]) (3 / 2) (- 1 / 2) 0 42 0) \<noteq> Inl ratio_error \<and>
   fst (split_dataset demo_lib (JList [JInt 1, JInt 2]) (3 / 2) (- 1 / 2) 0 42 0) = Inl sample_error \<and>
   fst (split_dataset demo_lib (JList [JInt 1, JInt 2]) (2 ^ 1023) (- (2 ^ 1023)) 1 42 0) =
     Inl overflow_error"
proof -
  let ?data = "JList [JInt 1, JInt 2]"
  have coll: "is_list_or_dict ?data" by simp
  have sum: "ratios_sum_to_1 demo_lib (3 / 2) (- 1 / 2) 0" by code_simp
  have n: "2 \<le> n_items ?data \<and> n_items ?data < 2 ^ 52" by (simp add: n_items_def)
  have n': "2 \<le> n_items ?data \<and> n_items ?data < 2 ^ 53" by (simp add: n_items_def)
  note claim = ratio_check_only_sum [OF demo_lib_ok coll sum, where s = 42 and g = 0]
  from claim have "fst (split_dataset demo_lib ?data (3 / 2) (- 1 / 2) 0 42 0) \<noteq> Inl ratio_error"
    by (rule conjunct1)
  moreover from claim n
  have "fst (split_dataset demo_lib ?data (3 / 2) (- 1 / 2) 0 42 0) = Inl sample_error"
    by blast
  moreover from claim n'
  have "fst (split_dataset demo_lib ?data (2 ^ 1023) (- (2 ^ 1023)) 1 42 0) = Inl overflow_error"
    by blast
  ultimately show ?thesis by blast
qed

section \<open>The claims about the record flattener\<close>

lemma strings_of_Some: "strings_of cs = Some ss \<Longrightarrow> cs = map JStr ss"
  by (induction cs arbitrary: ss rule: strings_of.induct) (auto split: option.splits)

lemma foldl_conclusion:
  "foldl (\<lambda>conclusion c. conclusion @ py_format str_of c @ newline) acc (map JStr ss) =
     acc @ concat (map (\<lambda>c. c @ newline) ss)"
  by (induction ss arbitrary: acc) simp_all

lemma read_record_D:
  assumes "read_record r = Some fr"
  shows "\<exists>fs. r = JDict fs \<and>
           map_of fs ''CONTEXTS'' = Some (JList (map JStr (contexts fr))) \<and>
           map_of fs ''LONG_ANSWER'' = Some (JStr (long_answer fr)) \<and>
           map_of fs ''QUESTION'' = Some (question fr) \<and>
           map_of fs ''MESHES'' = Some (meshes fr) \<and>
           map_of fs ''final_decision'' = Some (final_decision fr)"
  using assms
  by (auto simp: read_record_def split: json.splits option.splits dest!: strings_of_Some)

lemma flatten_entry_record:
  assumes look: "map_of kvs k = Some r" and rd: "read_record r = Some fr"
  shows "flatten_entry str_of (JDict kvs) (JStr k) = Inr (spec_line k fr)"
proof -
  from read_record_D [OF rd] obtain fs where r: "r = JDict fs"
    and f: "map_of fs ''CONTEXTS'' = Some (JList (map JStr (contexts fr)))"
      "map_of fs ''LONG_ANSWER'' = Some (JStr (long_answer fr))"
      "map_of fs ''QUESTION'' = Some (question fr)"
      "map_of fs ''MESHES'' = Some (meshes fr)"
      "map_of fs ''final_decision'' = Some (final_decision fr)"
    by blast
  have fld: "field_of (JDict kvs) (JStr k) name = (case map_of fs name of
      Some v \<Rightarrow> Inr v | None \<Rightarrow> Inl (KeyError (JStr name)))" for name
    by (simp add: field_of_def look r)
  show ?thesis
    unfolding flatten_entry_def fld f
    by (simp add: foldl_conclusion spec_line_def spec_conclusion_def)
qed

lemma flatten_loop_records:
  assumes "\<forall>(k, fr) \<in> set kfs. \<exists>r. map_of kvs k = Some r \<and> read_record r = Some fr"
  shows "flatten_loop str_of (JDict kvs) (map (\<lambda>(k, fr). JStr k) kfs) written =
           (written @ map (\<lambda>(k, fr). spec_line k fr) kfs, None)"
  using assms
proof (induction kfs arbitrary: written)
  case Nil
  then show ?case by simp
next
  case (Cons p kfs)
  obtain k fr where p: "p = (k, fr)" by (cases p)
  from Cons.prems obtain r where "map_of kvs k = Some r" "read_record r = Some fr"
    by (auto simp: p)
  then have "flatten_entry str_of (JDict kvs) (JStr k) = Inr (spec_line k fr)"
    by (rule flatten_entry_record)
  moreover from Cons.prems
  have "\<forall>(k, fr) \<in> set kfs. \<exists>r. map_of kvs k = Some r \<and> read_record r = Some fr" by simp
  ultimately show ?case by (simp add: p Cons.IH)
qed

text \<open>
  Claim C7. For a dict dataset (distinct keys) whose records are records of the data
  model (\<open>read_record\<close> reads each of them), the call ends normally and the file holds
  one object per record, in the order of the dataset: the object \<open>spec_line\<close> describes,
  with \<^verbatim>\<open>idx\<close> the identifier, \<^verbatim>\<open>QUESTION\<close>, \<^verbatim>\<open>CONCLUSION\<close> (each string of
  \<^verbatim>\<open>CONTEXTS\<close> followed by a newline, then \<^verbatim>\<open>LONG_ANSWER\<close> followed by a newline),
  \<^verbatim>\<open>TYPE\<close> the value of \<^verbatim>\<open>MESHES\<close> and \<^verbatim>\<open>FINAL_DECISION\<close> the value of
  \<^verbatim>\<open>final_decision\<close>. For the record of the specification under the identifier 1 the
  line is the object the specification gives.
\<close>

theorem flattener_output:
  assumes d: "distinct (map fst kvs)"
    and recs: "map (\<lambda>(k, r). read_record r) kvs = map Some frs"
  shows "organize_conclusion str_of (JDict kvs) =
           (map (\<lambda>(k, fr). spec_line k fr) (zip (map fst kvs) frs), None) \<and>
         organize_conclusion str_of
           (JDict [(''1'', JDict [(''CONTEXTS'', JList [JStr ''A.'', JStr ''B.'']),
                                  (''LONG_ANSWER'', JStr ''C.''),
                                  (''QUESTION'', JStr ''Q?''),
                                  (''MESHES'', JList [JStr ''x'']),
                                  (''final_decision'', JStr ''yes'')])]) =
           ([JDict [(''idx'', JStr ''1''),
                    (''QUESTION'', JStr ''Q?''),
                    (''CONCLUSION'', JStr (''A.'' @ newline @ ''B.'' @ newline @ ''C.'' @ newline)),
                    (''TYPE'', JList [JStr ''x'']),
                    (''FINAL_DECISION'', JStr ''yes'')]], None)"
proof (intro conjI)
  from recs have len: "length frs = length kvs" by (metis length_map)
  let ?kfs = "zip (map fst kvs) frs"
  have keys: "map (\<lambda>(k, fr). JStr k) ?kfs = map (\<lambda>(k, v). JStr k) kvs"
    using len by (induction kvs frs rule: list_induct2') auto
  have "\<forall>(k, fr) \<in> set ?kfs. \<exists>r. map_of kvs k = Some r \<and> read_record r = Some fr"
  proof (clarify)
    fix k fr
    assume "(k, fr) \<in> set ?kfs"
    then obtain i where i: "i < length kvs" "k = fst (kvs ! i)" "fr = frs ! i"
      using len by (auto simp: set_zip)
    from recs i(1) have "map (\<lambda>(k, r). read_record r) kvs ! i = map Some frs ! i" by simp
    with i len have rd: "read_record (snd (kvs ! i)) = Some fr"
      by (simp add: case_prod_beta)
    from d i(1) have "map_of kvs (fst (kvs ! i)) = Some (snd (kvs ! i))"
      by (simp add: map_of_eq_Some_iff)
    with rd i(2) show "\<exists>r. map_of kvs k = Some r \<and> read_record r = Some fr" by blast
  qed
  from flatten_loop_records [OF this, of str_of "[]"] keys
  show "organize_conclusion str_of (JDict kvs) =
           (map (\<lambda>(k, fr). spec_line k fr) ?kfs, None)"
    by (simp add: organize_conclusion_def)
next
  show "organize_conclusion str_of
           (JDict [(''1'', JDict [(''CONTEXTS'', JList [JStr ''A.'', JStr ''B.'']),
                                  (''LONG_ANSWER'', JStr ''C.''),
                                  (''QUESTION'', JStr ''Q?''),
                                  (''MESHES'', JList [JStr ''x'']),
                                  (''final_decision'', JStr ''yes'')])]) =
           ([JDict [(''idx'', JStr ''1''),
                    (''QUESTION'', JStr ''Q?''),
                    (''CONCLUSION'', JStr (''A.'' @ newline @ ''B.'' @ newline @ ''C.'' @ newline)),
                    (''TYPE'', JList [JStr ''x'']),
                    (''FINAL_DECISION'', JStr ''yes'')]], None)"
    by (simp add: organize_conclusion_def flatten_entry_def field_of_def)
qed


text \<open>Claim C7 on a dataset of two records, the fields of the first in another order.\<close>

theorem flattener_output_witness:
  "organize_conclusion demo_str
     (JDict [(''7'', JDict [(''QUESTION'', JStr ''Why?''),
                            (''CONTEXTS'', JList [JStr ''One.'']),
                            (''LONG_ANSWER'', JStr ''So.''),
                            (''MESHES'', JList []),
                            (''final_decision'', JStr ''no'')]),
             (''8'', JDict [(''CONTEXTS'', JList []),
                            (''LONG_ANSWER'', JStr ''Yes.''),
                            (''QUESTION'', JStr ''Is it?''),
                            (''MESHES'', JList [JStr ''m'', JStr ''n'']),
                            (''final_decision'', JStr ''yes'')])]) =
     ([JDict [(''idx'', JStr ''7''), (''QUESTION'', JStr ''Why?''),
              (''CONCLUSION'', JStr (''One.'' @ newline @ ''So.'' @ newline)),
              (''TYPE'', JList []), (''FINAL_DECISION'', JStr ''no'')],
       JDict [(''idx'', JStr ''8''), (''QUESTION'', JStr ''Is it?''),
              (''CONCLUSION'', JStr (''Yes.'' @ newline)),
              (''TYPE'', JList [JStr ''m'', JStr ''n'']), (''FINAL_DECISION'', JStr ''yes'')]],
      None)"
proof -
  let ?r1 = "JDict [(''QUESTION'', JStr ''Why?''),
                            (''CONTEXTS'', JList [JStr ''One.'']),
                            (''LONG_ANSWER'', JStr ''So.''),
                            (''MESHES'', JList []),
                            (''final_decision'', JStr ''no'')]"
  let ?r2 = "JDict [(''CONTEXTS'', JList []),
                            (''LONG_ANSWER'', JStr ''Yes.''),
                            (''QUESTION'', JStr ''Is it?''),
                            (''MESHES'', JList [JStr ''m'', JStr ''n'']),
                            (''final_decision'', JStr ''yes'')]"
  let ?f1 = "\<lparr> contexts = [''One.''], long_answer = ''So.'', question = JStr ''Why?'',
               meshes = JList [], final_decision = JStr ''no'' \<rparr>"
  let ?f2 = "\<lparr> contexts = [], long_answer = ''Yes.'', question = JStr ''Is it?'',
               meshes = JList [JStr ''m'', JStr ''n''], final_decision = JStr ''yes'' \<rparr>"
  have d: "distinct (map fst [(''7'', ?r1), (''8'', ?r2)])" by simp
  have recs: "map (\<lambda>(k, r). read_record r) [(''7'', ?r1), (''8'', ?r2)] = map Some [?f1, ?f2]"
    by (simp add: read_record_def)
  from flattener_output [OF d recs, of demo_str]
  show ?thesis by (simp add: spec_line_def spec_conclusion_def)
qed

lemma flatten_loop_ok:
  "flatten_loop str_of ds entries written = (out, None) \<Longrightarrow>
     \<forall>e\<in>set entries. \<exists>line. flatten_entry str_of ds e = Inr line"
  by (induction entries arbitrary: written) (auto split: sum.splits)

lemma flatten_entry_fields:
  assumes "flatten_entry str_of ds e = Inr line" and "name \<in> set required_fields"
  shows "\<exists>v. field_of ds e name = Inr v"
  using assms
  by (auto simp: flatten_entry_def required_fields_def Let_def split: sum.splits)

lemma py_getitem_str_key:
  "py_getitem r (JStr name) = Inr v \<Longrightarrow> \<exists>fs. r = JDict fs \<and> map_of fs name = Some v"
  by (cases r) (auto split: option.splits)

lemma field_of_Inr_D:
  assumes "field_of ds e name = Inr v"
  shows "\<exists>r fs. py_getitem ds e = Inr r \<and> r = JDict fs \<and> map_of fs name = Some v"
  using assms by (auto simp: field_of_def split: sum.splits dest: py_getitem_str_key)

lemma flatten_entry_Inr_D:
  assumes "flatten_entry str_of ds e = Inr line"
  shows "\<exists>r. py_getitem ds e = Inr r \<and> has_required_fields r"
proof -
  have "''CONTEXTS'' \<in> set required_fields" by (simp add: required_fields_def)
  from flatten_entry_fields [OF assms this] obtain v where "field_of ds e ''CONTEXTS'' = Inr v" ..
  from field_of_Inr_D [OF this] obtain r fs where r: "py_getitem ds e = Inr r" "r = JDict fs"
    by blast
  have "map_of fs name \<noteq> None" if "name \<in> set required_fields" for name
  proof -
    from flatten_entry_fields [OF assms that] obtain w where "field_of ds e name = Inr w" ..
    from field_of_Inr_D [OF this] r show ?thesis by auto
  qed
  then have "has_required_fields r" by (simp add: r(2) list_all_iff)
  with r(1) show ?thesis by blast
qed

lemma seq_getitem_mem: "seq_getitem xs i = Inr x \<Longrightarrow> x \<in> set xs"
  by (auto simp: seq_getitem_def split: if_splits)

lemma list_getitem_D:
  assumes "py_getitem (JList xs) e = Inr r"
  shows "r \<in> set xs" and "as_index e \<noteq> None"
  using assms by (auto split: option.splits dest: seq_getitem_mem)

lemma nonempty_list_fails:
  assumes "xs \<noteq> []"
  shows "snd (organize_conclusion str_of (JList xs)) \<noteq> None"
proof
  assume "snd (organize_conclusion str_of (JList xs)) = None"
  then have "flatten_loop str_of (JList xs) xs [] =
      (fst (flatten_loop str_of (JList xs) xs []), None)"
    by (simp add: organize_conclusion_def prod_eq_iff)
  from flatten_loop_ok [OF this]
  have ok: "\<forall>e\<in>set xs. \<exists>line. flatten_entry str_of (JList xs) e = Inr line" .
  from assms have "hd xs \<in> set xs" by simp
  with ok obtain line where "flatten_entry str_of (JList xs) (hd xs) = Inr line" by blast
  from flatten_entry_Inr_D [OF this] obtain r where
    r: "py_getitem (JList xs) (hd xs) = Inr r" "has_required_fields r" by blast
  from r(2) obtain fs where fs: "r = JDict fs" by (cases r) simp_all
  from list_getitem_D(1) [OF r(1)] ok obtain line' where
    "flatten_entry str_of (JList xs) r = Inr line'" by blast
  from flatten_entry_Inr_D [OF this] obtain r' where "py_getitem (JList xs) r = Inr r'" by blast
  from list_getitem_D(2) [OF this] fs show False by simp
qed

lemma nonempty_str_fails:
  assumes "s \<noteq> []"
  shows "snd (organize_conclusion str_of (JStr s)) \<noteq> None"
proof -
  from assms obtain c cs where s: "s = c # cs" by (cases s) auto
  show ?thesis
    by (simp add: s organize_conclusion_def flatten_entry_def field_of_def)
qed

lemma record_without_fields_fails:
  assumes d: "distinct (map fst kvs)" and mem: "(k, r) \<in> set kvs"
    and bad: "\<not> has_required_fields r"
  shows "snd (organize_conclusion str_of (JDict kvs)) \<noteq> None"
proof
  let ?entries = "map (\<lambda>(k, v). JStr k) kvs"
  assume "snd (organize_conclusion str_of (JDict kvs)) = None"
  then have "flatten_loop str_of (JDict kvs) ?entries [] =
      (fst (flatten_loop str_of (JDict kvs) ?entries []), None)"
    by (simp add: organize_conclusion_def prod_eq_iff)
  from flatten_loop_ok [OF this]
  have ok: "\<forall>e\<in>set ?entries. \<exists>line. flatten_entry str_of (JDict kvs) e = Inr line" .
  from mem have "JStr k \<in> set ?entries" by force
  with ok obtain line where "flatten_entry str_of (JDict kvs) (JStr k) = Inr line" by blast
  from flatten_entry_Inr_D [OF this] obtain r' where
    r': "py_getitem (JDict kvs) (JStr k) = Inr r'" "has_required_fields r'" by blast
  from d mem have "map_of kvs k = Some r" by simp
  with r'(1) have "r' = r" by simp
  with r'(2) bad show False by simp
qed

text \<open>
  Claim C8, as amended. On a dataset that is not a dict the call fails, except on an
  empty list and on an empty string: the loop then runs no iteration, nothing is
  written and the call ends normally. On a dict dataset (distinct keys) the call fails
  whenever some record is not a dict holding all of the required fields
  \<^verbatim>\<open>CONTEXTS\<close>, \<^verbatim>\<open>LONG_ANSWER\<close>, \<^verbatim>\<open>QUESTION\<close>, \<^verbatim>\<open>MESHES\<close>, \<^verbatim>\<open>final_decision\<close>.
\<close>

theorem flattener_failures:
  "(\<not> is_dict dataset \<longrightarrow>
      (snd (organize_conclusion str_of dataset) = None \<longleftrightarrow>
         dataset = JList [] \<or> dataset = JStr [])) \<and>
   organize_conclusion str_of (JList []) = ([], None) \<and>
   organize_conclusion str_of (JStr []) = ([], None) \<and>
   (distinct (map fst kvs) \<and> (k, r) \<in> set kvs \<and> \<not> has_required_fields r \<longrightarrow>
      snd (organize_conclusion str_of (JDict kvs)) \<noteq> None)"
proof (intro conjI impI)
  assume nd: "\<not> is_dict dataset"
  show "snd (organize_conclusion str_of dataset) = None \<longleftrightarrow>
         dataset = JList [] \<or> dataset = JStr []"
  proof (cases dataset)
    case (JList xs)
    then show ?thesis
      using nonempty_list_fails [of xs str_of]
      by (cases "xs = []") (simp_all add: organize_conclusion_def)
  next
    case (JStr s)
    then show ?thesis
      using nonempty_str_fails [of s str_of]
      by (cases "s = []") (simp_all add: organize_conclusion_def)
  next
    case (JDict kvs)
    with nd show ?thesis by simp
  qed (simp_all add: organize_conclusion_def)
next
  show "organize_conclusion str_of (JList []) = ([], None)"
    by (simp add: organize_conclusion_def)
  show "organize_conclusion str_of (JStr []) = ([], None)"
    by (simp add: organize_conclusion_def)
next
  assume "distinct (map fst kvs) \<and> (k, r) \<in> set kvs \<and> \<not> has_required_fields r"
  then show "snd (organize_conclusion str_of (JDict kvs)) \<noteq> None"
    using record_without_fields_fails by blast
qed

text \<open>
  Claim C8 as stated fails: on an empty list the call does not fail, it leaves an empty
  file.
\<close>

theorem empty_list_flattens:
  "organize_conclusion demo_str (JList []) = ([], None)"
  by (simp add: organize_conclusion_def)


text \<open>
  Claim C8 on a list of one number, and on a dict whose record has no
  \<^verbatim>\<open>final_decision\<close>.
\<close>

theorem flattener_failures_witness:
  "snd (organize_conclusion demo_str (JList [JInt 0])) \<noteq> None \<and>
   snd (organize_conclusion demo_str
          (JDict [(''1'', JDict [(''CONTEXTS'', JList [JStr ''A.'']),
                                 (''LONG_ANSWER'', JStr ''C.''),
                                 (''QUESTION'', JStr ''Q?''),
                                 (''MESHES'', JList [])])])) \<noteq> None"
proof -
  let ?r = "JDict [(''CONTEXTS'', JList [JStr ''A.'']), (''LONG_ANSWER'', JStr ''C.''),
                   (''QUESTION'', JStr ''Q?''), (''MESHES'', JList [])]"
  have a: "\<not> is_dict (JList [JInt 0])" by simp
  have b: "distinct (map fst [(''1'', ?r)]) \<and> (''1'', ?r) \<in> set [(''1'', ?r)] \<and>
      \<not> has_required_fields ?r"
    by (simp add: required_fields_def)
  from flattener_failures [of "JList [JInt 0]" demo_str "[(''1'', ?r)]" "''1''" ?r] a b
  show ?thesis by simp
qed

end
